theory Spec2Isabelle
  imports Main "HOL-Library.Word" "HOL-Library.Signed_Division" "HOL-Library.Multiset"
begin

section \<open>Machine types of median.c\<close>

text \<open>
  A \<open>Datum\<close> is PostgreSQL's machine word (64 bits on the platforms PostgreSQL 12
  supports with by-value \<open>int8\<close> and \<open>float8\<close>), an \<open>Oid\<close> is an unsigned 32-bit
  integer, and the serialized state is a sequence of bytes.

  The C integers \<open>int64\<close> (the fields \<open>count\<close> and \<open>allocated\<close>) and \<open>int\<close>
  (\<open>num_elems\<close>, \<open>midpoint\<close>) are modelled as \<open>int\<close> with the two's-complement
  wrap-around written out: \<open>to_int64\<close> and \<open>to_int32\<close> are what storing a
  mathematical value into a variable of that type keeps (PostgreSQL is compiled with
  \<open>-fwrapv\<close>). The counter \<open>i\<close> of a loop is a natural number: it runs from 0 to
  a bound that fits an \<open>int\<close> whenever the array of the state is one that the allocator
  can grant.

  An array is a list of its slots. An access outside the array has no defined result in
  C; the properties below are about states whose \<open>count\<close> is within the array
  (\<open>state_ok\<close>), and the deserialization, which takes \<open>count\<close> and \<open>allocated\<close>
  from its input, records such an access as an outcome.
\<close>

type_synonym Datum = "64 word"
type_synonym Oid = "32 word"
type_synonym byte = "8 word"

definition to_int64 :: "int \<Rightarrow> int" where
  "to_int64 k = signed_take_bit 63 k"

definition to_int32 :: "int \<Rightarrow> int" where
  "to_int32 k = signed_take_bit 31 k"

text \<open>
  \<open>TypeCacheEntry\<close>: the fields of the type cache entry that the module reads
  (\<open>cmp_proc_finfo.fn_oid\<close> and \<open>typcollation\<close>), with the type it describes.
\<close>

record TypeCacheEntry =
  type_id :: Oid
  cmp_proc_fn_oid :: Oid
  typcollation :: Oid

text \<open>
  \<open>struct MedianState\<close>. The array \<open>values\<close> is the list \<open>values_arr\<close> of all
  its allocated slots; only the slots below \<open>count\<close> are meaningful.
\<close>

record MedianState =
  inputTypeId :: Oid
  count :: int
  allocated :: int
  values_arr :: "Datum list"
  typentry :: TypeCacheEntry

text \<open>
  \<open>palloc\<close> of an array of \<open>n\<close> Datums and \<open>repalloc\<close> of an array to \<open>n\<close>
  Datums. The C functions leave new slots uninitialised; the model fills them with 0.
  No function of the module reads a slot at or above \<open>count\<close> before writing it.
  The allocator's own failure (out of memory) is outside the model.
\<close>

definition palloc_Datums :: "int \<Rightarrow> Datum list" where
  "palloc_Datums n = replicate (nat n) 0"

definition repalloc_Datums :: "Datum list \<Rightarrow> int \<Rightarrow> Datum list" where
  "repalloc_Datums vs n = take (nat n) vs @ replicate (nat n - length vs) 0"

section \<open>The PostgreSQL functions the module calls\<close>

text \<open>
  The module is an extension of PostgreSQL 12; the functions of the server that it calls
  are not part of it. They are the fields of \<open>pg_env\<close>, and every function of the
  model takes such an environment:
  \<^item> \<open>AggCheckCallContext\<close>: whether the call is made in an aggregate context;
  \<^item> \<open>get_fn_expr_argtype\<close>: the type of the aggregate's input argument;
  \<^item> \<open>lookup_type_cache\<close>: the type cache entry of a type, for one of the two
    requests that the module makes (\<open>typecache_flag\<close>);
  \<^item> \<open>get_typlenbyvalalign\<close>: \<open>typlen\<close> and \<open>typbyval\<close> of a type;
  \<^item> \<open>datumIsEqual\<close>: equality of two Datums by their representation;
  \<^item> \<open>FunctionCall2Coll\<close>: the call of the function with a given Oid under a collation;
  \<^item> \<open>qsort_arg\<close>: the sorting function, given the comparison and the array section;
  \<^item> C's floating-point addition and division on \<open>float4\<close> and \<open>float8\<close> and the
    conversion of an \<open>int\<close> to each, on the bit patterns of the values;
  \<^item> \<open>numeric_add\<close>, \<open>numeric_div\<close> and \<open>int4_numeric\<close>, called through
    \<open>DirectFunctionCall\<close>.
  An error raised inside one of these functions ends the call; the model has the errors
  that the module itself raises.
\<close>

datatype typecache_flag = TYPECACHE_CMP_PROC | TYPECACHE_CMP_PROC_FINFO

record pg_env =
  AggCheckCallContext :: bool
  get_fn_expr_argtype :: Oid
  lookup_type_cache :: "Oid \<Rightarrow> typecache_flag \<Rightarrow> TypeCacheEntry"
  get_typlenbyvalalign :: "Oid \<Rightarrow> int \<times> bool"
  datumIsEqual :: "Datum \<Rightarrow> Datum \<Rightarrow> bool \<Rightarrow> int \<Rightarrow> bool"
  FunctionCall2Coll :: "Oid \<Rightarrow> Oid \<Rightarrow> Datum \<Rightarrow> Datum \<Rightarrow> Datum"
  qsort_arg :: "(Datum \<Rightarrow> Datum \<Rightarrow> int) \<Rightarrow> Datum list \<Rightarrow> Datum list"
  float4_add :: "32 word \<Rightarrow> 32 word \<Rightarrow> 32 word"
  float4_div :: "32 word \<Rightarrow> 32 word \<Rightarrow> 32 word"
  float4_of_int :: "int \<Rightarrow> 32 word"
  float8_add :: "64 word \<Rightarrow> 64 word \<Rightarrow> 64 word"
  float8_div :: "64 word \<Rightarrow> 64 word \<Rightarrow> 64 word"
  float8_of_int :: "int \<Rightarrow> 64 word"
  numeric_add :: "Datum \<Rightarrow> Datum \<Rightarrow> Datum"
  numeric_div :: "Datum \<Rightarrow> Datum \<Rightarrow> Datum"
  int4_numeric :: "Datum \<Rightarrow> Datum"

text \<open>The errors that the module raises with \<open>elog(ERROR)\<close> and \<open>ereport(ERROR)\<close>,
  the refusal of an allocation request by \<open>palloc\<close>, and the two ways in which
  \<open>deserialize_median_state\<close> can leave the memory it was given.\<close>

datatype fault =
    NotAggregateContext
  | UnknownInputType
  | NoComparisonFunction
  | NullState
  | InvalidAllocRequest
  | OutOfMemory
  | OutOfBoundsRead
  | OutOfBoundsWrite

text \<open>Constants of PostgreSQL's headers: \<open>InvalidOid\<close>, the type Oids of
  \<open>catalog/pg_type.h\<close>, and \<open>MaxAllocSize\<close> of \<open>utils/memutils.h\<close>.\<close>

definition InvalidOid :: Oid where "InvalidOid = 0"
definition INT8OID :: Oid where "INT8OID = 20"
definition INT4OID :: Oid where "INT4OID = 23"
definition FLOAT4OID :: Oid where "FLOAT4OID = 700"
definition FLOAT8OID :: Oid where "FLOAT8OID = 701"
definition NUMERICOID :: Oid where "NUMERICOID = 1700"
definition MaxAllocSize :: int where "MaxAllocSize = 1073741823"

text \<open>The conversion macros of \<open>postgres.h\<close>: \<open>DatumGetInt32\<close> keeps the low 32
  bits, \<open>Int32GetDatum\<close> extends the sign; the floating-point macros move the bit
  pattern of the value the same way.\<close>

definition DatumGetInt32 :: "Datum \<Rightarrow> int" where
  "DatumGetInt32 X = sint (ucast X :: 32 word)"

definition Int32GetDatum :: "int \<Rightarrow> Datum" where
  "Int32GetDatum X = word_of_int X"

definition DatumGetInt64 :: "Datum \<Rightarrow> int" where
  "DatumGetInt64 X = sint X"

definition Int64GetDatum :: "int \<Rightarrow> Datum" where
  "Int64GetDatum X = word_of_int X"

definition DatumGetFloat4 :: "Datum \<Rightarrow> 32 word" where
  "DatumGetFloat4 X = ucast X"

definition Float4GetDatum :: "32 word \<Rightarrow> Datum" where
  "Float4GetDatum X = scast X"

definition DatumGetFloat8 :: "Datum \<Rightarrow> 64 word" where
  "DatumGetFloat8 X = X"

definition Float8GetDatum :: "64 word \<Rightarrow> Datum" where
  "Float8GetDatum X = X"

section \<open>Creating the state, adding and discarding one element\<close>

text \<open>\<open>get_type_comp_method\<close> (median.c, lines 501-518).\<close>

definition get_type_comp_method :: "pg_env \<Rightarrow> Oid \<Rightarrow> fault + TypeCacheEntry" where
  "get_type_comp_method pg type_oid =
     (let te = lookup_type_cache pg type_oid TYPECACHE_CMP_PROC_FINFO
      in if cmp_proc_fn_oid te = InvalidOid then Inl NoComparisonFunction else Inr te)"

text \<open>\<open>init_median_state\<close> (lines 59-86).\<close>

definition init_median_state :: "pg_env \<Rightarrow> fault + MedianState" where
  "init_median_state pg =
     (if \<not> AggCheckCallContext pg then Inl NotAggregateContext
      else let tid = get_fn_expr_argtype pg
           in if tid = InvalidOid then Inl UnknownInputType
              else (case get_type_comp_method pg tid of
                      Inl e \<Rightarrow> Inl e
                    | Inr te \<Rightarrow>
                        Inr \<lparr>inputTypeId = tid, count = 0, allocated = 8,
                             values_arr = palloc_Datums 8, typentry = te\<rparr>))"

text \<open>\<open>add_input_element_median_state\<close> (lines 430-441).\<close>

definition add_input_element_median_state :: "MedianState \<Rightarrow> Datum \<Rightarrow> MedianState" where
  "add_input_element_median_state state newVal =
     (let st1 = state\<lparr>count := to_int64 (count state + 1)\<rparr>;
          st2 = (if count st1 > to_int64 (allocated st1 - 1)
                 then let a = to_int64 (allocated st1 * 2)
                      in st1\<lparr>allocated := a, values_arr := repalloc_Datums (values_arr st1) a\<rparr>
                 else st1)
      in st2\<lparr>values_arr := (values_arr st2)[nat (to_int64 (count st2 - 1)) := newVal]\<rparr>)"

text \<open>
  The loop of \<open>discard_element_median_state\<close> (lines 463-477), from index \<open>i\<close> on.
  \<open>eq a b\<close> stands for \<open>datumIsEqual(a, b, typbyval, typlen)\<close>. The result is the
  flag \<open>found\<close> and the array after the loop.
\<close>

function discard_loop ::
  "(Datum \<Rightarrow> Datum \<Rightarrow> bool) \<Rightarrow> Datum \<Rightarrow> int \<Rightarrow> nat \<Rightarrow> bool \<Rightarrow> Datum list \<Rightarrow> bool \<times> Datum list"
where
  "discard_loop eq datum num_elems i found elem_values =
     (if int i < num_elems then
        (if \<not> found \<and> eq (elem_values ! i) datum
         then discard_loop eq datum num_elems (Suc i) True elem_values
         else if found \<and> int i < num_elems - 1
         then discard_loop eq datum num_elems (Suc i) found
                (elem_values[i := elem_values ! (Suc i)])
         else discard_loop eq datum num_elems (Suc i) found elem_values)
      else (found, elem_values))"
  by pat_completeness auto
termination
  by (relation "measure (\<lambda>(eq, datum, num_elems, i, found, vs). nat (num_elems - int i))") auto

declare discard_loop.simps [simp del]

text \<open>\<open>discard_element_median_state\<close> (lines 448-486).\<close>

definition discard_element_median_state :: "pg_env \<Rightarrow> MedianState \<Rightarrow> Datum \<Rightarrow> MedianState" where
  "discard_element_median_state pg state datum =
     (let num_elems = to_int32 (count state);
          (typlen, typbyval) = get_typlenbyvalalign pg (inputTypeId state);
          (found, elem_values) =
             discard_loop (\<lambda>a b. datumIsEqual pg a b typbyval typlen) datum num_elems 0 False
               (values_arr state);
          st1 = state\<lparr>values_arr := elem_values\<rparr>
      in if found then st1\<lparr>count := to_int64 (count st1 - 1)\<rparr> else st1)"

text \<open>\<open>median_transfn\<close> (lines 95-112) and \<open>median_mtransfn\<close> (lines 146-161). A
  state or an argument that is SQL NULL is \<open>None\<close>.\<close>

definition median_transfn ::
  "pg_env \<Rightarrow> MedianState option \<Rightarrow> Datum option \<Rightarrow> fault + MedianState" where
  "median_transfn pg arg0 arg1 =
     (case (case arg0 of None \<Rightarrow> init_median_state pg | Some state \<Rightarrow> Inr state) of
        Inl e \<Rightarrow> Inl e
      | Inr state \<Rightarrow>
          Inr (case arg1 of None \<Rightarrow> state
               | Some v \<Rightarrow> add_input_element_median_state state v))"

definition median_mtransfn ::
  "pg_env \<Rightarrow> MedianState option \<Rightarrow> Datum option \<Rightarrow> fault + MedianState" where
  "median_mtransfn pg arg0 arg1 =
     (case arg0 of
        None \<Rightarrow> Inl NullState
      | Some state \<Rightarrow>
          Inr (case arg1 of None \<Rightarrow> state
               | Some v \<Rightarrow> discard_element_median_state pg state v))"

section \<open>The median\<close>

text \<open>\<open>calculate_average\<close> (lines 574-620).\<close>

definition calculate_average :: "pg_env \<Rightarrow> Oid \<Rightarrow> Datum \<Rightarrow> Datum \<Rightarrow> Datum" where
  "calculate_average pg tid left right =
     (if tid = INT4OID then
        (let l = DatumGetInt32 left; r = DatumGetInt32 right
         in Int32GetDatum (to_int32 (l + r) sdiv 2))
      else if tid = INT8OID then
        (let l = DatumGetInt64 left; r = DatumGetInt64 right
         in Int64GetDatum (to_int64 (l + r) sdiv 2))
      else if tid = FLOAT4OID then
        (let l = DatumGetFloat4 left; r = DatumGetFloat4 right
         in Float4GetDatum (float4_div pg (float4_add pg l r) (float4_of_int pg 2)))
      else if tid = FLOAT8OID then
        (let l = DatumGetFloat8 left; r = DatumGetFloat8 right
         in Float8GetDatum (float8_div pg (float8_add pg l r) (float8_of_int pg 2)))
      else if tid = NUMERICOID then
        (let sum = numeric_add pg left right;
             two = int4_numeric pg (Int32GetDatum 2)
         in numeric_div pg sum two)
      else left)"

text \<open>\<open>calculate_median\<close> (lines 544-565).\<close>

definition calculate_median :: "pg_env \<Rightarrow> MedianState \<Rightarrow> Datum" where
  "calculate_median pg state =
     (let midpoint = to_int32 (count state sdiv 2)
      in if count state smod 2 = 0
         then (let left = values_arr state ! nat (to_int32 (midpoint - 1));
                   right = values_arr state ! nat midpoint
               in calculate_average pg (inputTypeId state) left right)
         else values_arr state ! nat midpoint)"

text \<open>\<open>datum_qsort_compare\<close> (lines 527-538).\<close>

definition datum_qsort_compare :: "pg_env \<Rightarrow> TypeCacheEntry \<Rightarrow> Datum \<Rightarrow> Datum \<Rightarrow> int" where
  "datum_qsort_compare pg te da db =
     DatumGetInt32 (FunctionCall2Coll pg (cmp_proc_fn_oid te) (typcollation te) da db)"

text \<open>The call of \<open>qsort_arg\<close> in \<open>median_finalfn\<close> (lines 132-133): the first
  \<open>count\<close> slots are sorted in place.\<close>

definition sort_values :: "pg_env \<Rightarrow> MedianState \<Rightarrow> MedianState" where
  "sort_values pg state =
     state\<lparr>values_arr :=
        qsort_arg pg (datum_qsort_compare pg (typentry state))
          (take (nat (count state)) (values_arr state))
        @ drop (nat (count state)) (values_arr state)\<rparr>"

text \<open>\<open>median_finalfn\<close> (lines 121-136); \<open>None\<close> is the SQL NULL result.\<close>

definition median_finalfn :: "pg_env \<Rightarrow> MedianState option \<Rightarrow> Datum option" where
  "median_finalfn pg arg0 =
     (case arg0 of
        None \<Rightarrow> None
      | Some state \<Rightarrow>
          if count state = 0 then None
          else Some (calculate_median pg (sort_values pg state)))"

section \<open>Combining two states\<close>

text \<open>The loop of \<open>combine_median_state\<close> (lines 205-208), from index \<open>i\<close> on.\<close>

function combine_loop :: "MedianState \<Rightarrow> nat \<Rightarrow> MedianState \<Rightarrow> MedianState" where
  "combine_loop state2 i state1 =
     (if int i < count state2
      then combine_loop state2 (Suc i)
             (add_input_element_median_state state1 (values_arr state2 ! i))
      else state1)"
  by pat_completeness auto
termination
  by (relation "measure (\<lambda>(state2, i, state1). nat (count state2 - int i))") auto

declare combine_loop.simps [simp del]

text \<open>\<open>memcpy\<close> of \<open>n\<close> Datums from \<open>src\<close> to the start of \<open>dst\<close>.\<close>

definition memcpy_Datums :: "Datum list \<Rightarrow> Datum list \<Rightarrow> int \<Rightarrow> Datum list" where
  "memcpy_Datums dst src n = take (nat n) src @ drop (nat n) dst"

text \<open>\<open>combine_median_state\<close> (lines 169-212). The two states are distinct objects.\<close>

definition combine_median_state ::
  "pg_env \<Rightarrow> MedianState option \<Rightarrow> MedianState option \<Rightarrow> fault + MedianState option" where
  "combine_median_state pg arg0 arg1 =
     (if \<not> AggCheckCallContext pg then Inl NotAggregateContext
      else case arg1 of
             None \<Rightarrow> Inr arg0
           | Some state2 \<Rightarrow>
               (case arg0 of
                  None \<Rightarrow>
                    Inr (Some \<lparr>inputTypeId = inputTypeId state2,
                               count = count state2,
                               allocated = allocated state2,
                               values_arr = memcpy_Datums (palloc_Datums (allocated state2))
                                              (values_arr state2) (count state2),
                               typentry = typentry state2\<rparr>)
                | Some state1 \<Rightarrow> Inr (Some (combine_loop state2 0 state1))))"

section \<open>Serialization\<close>

text \<open>
  \<open>appendBinaryStringInfo(&buf, (char *) &x, n)\<close> appends the \<open>n\<close> bytes of the
  object \<open>x\<close> as they lie in memory, and \<open>memcpy(&x, p, n)\<close> reads them back. The
  model fixes the byte order of the little-endian platforms: \<open>le_bytes n k\<close> are the
  \<open>n\<close> low bytes of \<open>k\<close>, least significant first, and \<open>le_nat\<close> reads such
  bytes as an unsigned number. A signed value is written in two's complement.
\<close>

fun le_bytes :: "nat \<Rightarrow> nat \<Rightarrow> byte list" where
  "le_bytes 0 k = []"
| "le_bytes (Suc n) k = of_nat (k mod 256) # le_bytes n (k div 256)"

fun le_nat :: "byte list \<Rightarrow> nat" where
  "le_nat [] = 0"
| "le_nat (b # bs) = unat b + 256 * le_nat bs"

definition bytes_of_Oid :: "Oid \<Rightarrow> byte list" where
  "bytes_of_Oid x = le_bytes 4 (unat x)"

definition bytes_of_int64 :: "int \<Rightarrow> byte list" where
  "bytes_of_int64 x = le_bytes 8 (nat (x mod 2 ^ 64))"

definition bytes_of_int32 :: "int \<Rightarrow> byte list" where
  "bytes_of_int32 x = le_bytes 4 (nat (x mod 2 ^ 32))"

definition bytes_of_Datum :: "Datum \<Rightarrow> byte list" where
  "bytes_of_Datum x = le_bytes 8 (unat x)"

definition Oid_of_bytes :: "byte list \<Rightarrow> Oid" where
  "Oid_of_bytes bs = of_nat (le_nat bs)"

definition int64_of_bytes :: "byte list \<Rightarrow> int" where
  "int64_of_bytes bs = to_int64 (int (le_nat bs))"

definition int32_of_bytes :: "byte list \<Rightarrow> int" where
  "int32_of_bytes bs = to_int32 (int (le_nat bs))"

definition Datum_of_bytes :: "byte list \<Rightarrow> Datum" where
  "Datum_of_bytes bs = of_nat (le_nat bs)"

text \<open>
  A Datum of a by-reference type is the address of an object in memory. \<open>mem a\<close> is the
  object at address \<open>a\<close>, as the bytes that \<open>VARSIZE_ANY\<close> attributes to it (header
  included), so that \<open>VARSIZE_ANY(a)\<close> is \<open>length (mem a)\<close>.

  The loop of \<open>serialize_median_state\<close> (lines 259-298), from index \<open>i\<close> on, with the
  buffer \<open>buf\<close> written so far.
\<close>

function serialize_loop ::
  "bool \<Rightarrow> bool \<Rightarrow> (Datum \<Rightarrow> byte list) \<Rightarrow> MedianState \<Rightarrow> nat \<Rightarrow> byte list \<Rightarrow> byte list"
where
  "serialize_loop typbyval is_varlena mem state i buf =
     (if int i < count state then
        (let is_null = (values_arr state ! i = 0);
             null_flag = (if is_null then 1 else 0);
             buf1 = buf @ [null_flag]
         in if is_null then serialize_loop typbyval is_varlena mem state (Suc i) buf1
            else if typbyval \<and> \<not> is_varlena then
              serialize_loop typbyval is_varlena mem state (Suc i)
                (buf1 @ bytes_of_Datum (values_arr state ! i))
            else if is_varlena then
              (let data_length = to_int32 (int (length (mem (values_arr state ! i))))
               in serialize_loop typbyval is_varlena mem state (Suc i)
                    (buf1 @ bytes_of_int32 data_length
                          @ take (nat data_length) (mem (values_arr state ! i))))
            else
              serialize_loop typbyval is_varlena mem state (Suc i)
                (buf1 @ bytes_of_Datum (values_arr state ! i)))
      else buf)"
  by pat_completeness auto
termination
  by (relation "measure (\<lambda>(typbyval, is_varlena, mem, state, i, buf). nat (count state - int i))")
     auto

declare serialize_loop.simps [simp del]

text \<open>\<open>serialize_median_state\<close> (lines 227-307). The result is the content of the
  \<open>bytea\<close>, without its length word. The size limit of a \<open>StringInfo\<close> buffer is,
  like the allocator's, outside the model.\<close>

definition serialize_median_state ::
  "pg_env \<Rightarrow> (Datum \<Rightarrow> byte list) \<Rightarrow> MedianState option \<Rightarrow> fault + byte list option" where
  "serialize_median_state pg mem arg0 =
     (case arg0 of
        None \<Rightarrow> Inr None
      | Some state \<Rightarrow>
          if \<not> AggCheckCallContext pg then Inl NotAggregateContext
          else (let (typlen, typbyval) = get_typlenbyvalalign pg (inputTypeId state);
                    is_varlena = (typlen = -1 \<or> typlen = -2);
                    buf = bytes_of_Oid (inputTypeId state)
                          @ bytes_of_int64 (count state)
                          @ bytes_of_int64 (allocated state)
                in Inr (Some (serialize_loop typbyval is_varlena mem state 0 buf))))"

section \<open>Deserialization\<close>

text \<open>
  \<open>memcpy(dst, p, n)\<close> from the input: the \<open>n\<close> bytes at offset \<open>p\<close>. The function
  has the bytes of the \<open>bytea\<close> and nothing else; a read that is not within them is a
  read of whatever memory follows, recorded as \<open>OutOfBoundsRead\<close>.
\<close>

definition read_bytes :: "byte list \<Rightarrow> nat \<Rightarrow> nat \<Rightarrow> fault + byte list" where
  "read_bytes bytes p n =
     (if p + n \<le> length bytes then Inr (take n (drop p bytes)) else Inl OutOfBoundsRead)"

text \<open>The assignment \<open>state->values[i] = d\<close>; the array has the slots it was
  allocated with.\<close>

definition store_value :: "nat \<Rightarrow> Datum \<Rightarrow> Datum list \<Rightarrow> fault + Datum list" where
  "store_value i d vals = (if i < length vals then Inr (vals[i := d]) else Inl OutOfBoundsWrite)"

text \<open>
  \<open>palloc\<close> refuses a request of more than \<open>MaxAllocSize\<close> bytes. The size of an
  array of \<open>n\<close> Datums is computed in \<open>size_t\<close>, and a negative \<open>int32\<close> length
  converts to a size above the limit.
\<close>

definition Datum_array_bytes :: "int \<Rightarrow> int" where
  "Datum_array_bytes n = (n * 8) mod 2 ^ 64"

definition AllocSizeIsValid :: "int \<Rightarrow> bool" where
  "AllocSizeIsValid sz \<longleftrightarrow> 0 \<le> sz \<and> sz \<le> MaxAllocSize"

text \<open>
  One iteration of the loop of \<open>deserialize_median_state\<close> (lines 363-416), for index
  \<open>i\<close>. The loop's variables are the offset \<open>p\<close> into the input, the array, the
  addresses \<open>addrs\<close> that \<open>palloc\<close> will return for the variable-length values (it
  raises an error when it has none left) and the memory.
\<close>

definition deserialize_datum ::
  "bool \<Rightarrow> bool \<Rightarrow> byte list \<Rightarrow> nat
     \<Rightarrow> nat \<times> Datum list \<times> Datum list \<times> (Datum \<Rightarrow> byte list)
     \<Rightarrow> fault + nat \<times> Datum list \<times> Datum list \<times> (Datum \<Rightarrow> byte list)" where
  "deserialize_datum typbyval is_varlena bytes i st =
     (let (p, vals, addrs, mem) = st
      in case read_bytes bytes p 1 of
           Inl e \<Rightarrow> Inl e
         | Inr fl \<Rightarrow>
             (let null_flag = hd fl; p1 = p + 1
              in if null_flag \<noteq> 0 then
                   (case store_value i 0 vals of
                      Inl e \<Rightarrow> Inl e
                    | Inr vals' \<Rightarrow> Inr (p1, vals', addrs, mem))
                 else if typbyval \<and> \<not> is_varlena then
                   (case read_bytes bytes p1 8 of
                      Inl e \<Rightarrow> Inl e
                    | Inr bs \<Rightarrow>
                        (case store_value i (Datum_of_bytes bs) vals of
                           Inl e \<Rightarrow> Inl e
                         | Inr vals' \<Rightarrow> Inr (p1 + 8, vals', addrs, mem)))
                 else if is_varlena then
                   (case read_bytes bytes p1 4 of
                      Inl e \<Rightarrow> Inl e
                    | Inr lb \<Rightarrow>
                        (let data_length = int32_of_bytes lb; p2 = p1 + 4
                         in if \<not> AllocSizeIsValid data_length then Inl InvalidAllocRequest
                            else (case addrs of
                                    [] \<Rightarrow> Inl OutOfMemory
                                  | a # addrs' \<Rightarrow>
                                      (case read_bytes bytes p2 (nat data_length) of
                                         Inl e \<Rightarrow> Inl e
                                       | Inr payload \<Rightarrow>
                                           (case store_value i a vals of
                                              Inl e \<Rightarrow> Inl e
                                            | Inr vals' \<Rightarrow>
                                                Inr (p2 + nat data_length, vals', addrs',
                                                     mem(a := payload)))))))
                 else
                   (case read_bytes bytes p1 8 of
                      Inl e \<Rightarrow> Inl e
                    | Inr bs \<Rightarrow>
                        (case store_value i (Datum_of_bytes bs) vals of
                           Inl e \<Rightarrow> Inl e
                         | Inr vals' \<Rightarrow> Inr (p1 + 8, vals', addrs, mem)))))"

text \<open>The loop itself, from index \<open>i\<close> on.\<close>

function deserialize_loop ::
  "bool \<Rightarrow> bool \<Rightarrow> byte list \<Rightarrow> int \<Rightarrow> nat
     \<Rightarrow> nat \<times> Datum list \<times> Datum list \<times> (Datum \<Rightarrow> byte list)
     \<Rightarrow> fault + nat \<times> Datum list \<times> Datum list \<times> (Datum \<Rightarrow> byte list)" where
  "deserialize_loop typbyval is_varlena bytes cnt i st =
     (if int i < cnt then
        (case deserialize_datum typbyval is_varlena bytes i st of
           Inl e \<Rightarrow> Inl e
         | Inr st' \<Rightarrow> deserialize_loop typbyval is_varlena bytes cnt (Suc i) st')
      else Inr st)"
  by pat_completeness auto
termination
  by (relation "measure (\<lambda>(typbyval, is_varlena, bytes, cnt, i, st). nat (cnt - int i))") auto

declare deserialize_loop.simps [simp del]

text \<open>\<open>deserialize_median_state\<close> (lines 317-423), on the content of the \<open>bytea\<close>.
  The result is the new state and the memory with the copies of the variable-length
  values.\<close>

definition deserialize_median_state ::
  "pg_env \<Rightarrow> Datum list \<Rightarrow> (Datum \<Rightarrow> byte list) \<Rightarrow> byte list option
     \<Rightarrow> fault + (MedianState \<times> (Datum \<Rightarrow> byte list)) option" where
  "deserialize_median_state pg addrs mem arg0 =
     (case arg0 of
        None \<Rightarrow> Inr None
      | Some bytes \<Rightarrow>
          if \<not> AggCheckCallContext pg then Inl NotAggregateContext
          else
            (case read_bytes bytes 0 4 of
               Inl e \<Rightarrow> Inl e
             | Inr b1 \<Rightarrow>
            (case read_bytes bytes 4 8 of
               Inl e \<Rightarrow> Inl e
             | Inr b2 \<Rightarrow>
            (case read_bytes bytes 12 8 of
               Inl e \<Rightarrow> Inl e
             | Inr b3 \<Rightarrow>
                (let tid = Oid_of_bytes b1;
                     cnt = int64_of_bytes b2;
                     alloc = int64_of_bytes b3
                 in if \<not> AllocSizeIsValid (Datum_array_bytes alloc) then Inl InvalidAllocRequest
                    else
                      (let (typlen, typbyval) = get_typlenbyvalalign pg tid;
                           is_varlena = (typlen = -1 \<or> typlen = -2);
                           vals = palloc_Datums (Datum_array_bytes alloc div 8)
                       in case deserialize_loop typbyval is_varlena bytes cnt 0
                                 (20, vals, addrs, mem) of
                            Inl e \<Rightarrow> Inl e
                          | Inr (p, vals', addrs', mem') \<Rightarrow>
                              Inr (Some (\<lparr>inputTypeId = tid, count = cnt, allocated = alloc,
                                           values_arr = vals',
                                           typentry = lookup_type_cache pg tid
                                                        TYPECACHE_CMP_PROC\<rparr>, mem'))))))))"

section \<open>Running the aggregate\<close>

text \<open>PostgreSQL starts an aggregate with the state NULL and calls the transition
  function once for every input row; \<open>run_transfn\<close> is that sequence of calls of
  \<open>median_transfn\<close>.\<close>

fun run_transfn ::
  "pg_env \<Rightarrow> MedianState option \<Rightarrow> Datum option list \<Rightarrow> fault + MedianState option" where
  "run_transfn pg st [] = Inr st"
| "run_transfn pg st (v # vs) =
     (case median_transfn pg st v of
        Inl e \<Rightarrow> Inl e
      | Inr state \<Rightarrow> run_transfn pg (Some state) vs)"

section \<open>Properties of states\<close>

text \<open>
  The invariant of the array: \<open>count\<close> is not negative and below \<open>allocated\<close>, and the
  array has \<open>allocated\<close> slots. A state is well formed when, in addition, its array is one
  that \<open>palloc\<close> or \<open>repalloc\<close> can have granted, of at most \<open>MaxAllocSize\<close> bytes.
  \<open>contents\<close> are the values that a state holds: the slots below \<open>count\<close>.
\<close>

definition array_ok :: "MedianState \<Rightarrow> bool" where
  "array_ok s \<longleftrightarrow>
     0 \<le> count s \<and> count s < allocated s \<and> length (values_arr s) = nat (allocated s)"

definition state_ok :: "MedianState \<Rightarrow> bool" where
  "state_ok s \<longleftrightarrow> array_ok s \<and> allocated s * 8 \<le> MaxAllocSize"

definition contents :: "MedianState \<Rightarrow> Datum list" where
  "contents s = take (nat (count s)) (values_arr s)"

section \<open>A reference median\<close>

text \<open>
  Sorting and indexing under a comparison function, with the averaging rule as a
  parameter: insertion sort, the middle element of the sorted sequence when its length
  is odd and the given average of the two middle elements when it is even.
\<close>

fun insert_by :: "(Datum \<Rightarrow> Datum \<Rightarrow> int) \<Rightarrow> Datum \<Rightarrow> Datum list \<Rightarrow> Datum list" where
  "insert_by cmp x [] = [x]"
| "insert_by cmp x (y # ys) = (if cmp x y \<le> 0 then x # y # ys else y # insert_by cmp x ys)"

fun sort_by :: "(Datum \<Rightarrow> Datum \<Rightarrow> int) \<Rightarrow> Datum list \<Rightarrow> Datum list" where
  "sort_by cmp [] = []"
| "sort_by cmp (x # xs) = insert_by cmp x (sort_by cmp xs)"

definition reference_median ::
  "(Datum \<Rightarrow> Datum \<Rightarrow> int) \<Rightarrow> (Datum \<Rightarrow> Datum \<Rightarrow> Datum) \<Rightarrow> Datum list \<Rightarrow> Datum" where
  "reference_median cmp average S =
     (let T = sort_by cmp S; n = length T
      in if odd n then T ! (n div 2) else average (T ! (n div 2 - 1)) (T ! (n div 2)))"

text \<open>
  The statistical median of a non-empty sequence of integers as the specification words
  it (section 4.3): the sequence is sorted; for an odd length \<open>n\<close> the median
  is the element at index \<open>n div 2\<close>, and for an even length it is the sum of the
  elements at indices \<open>n div 2 - 1\<close> and \<open>n div 2\<close> divided by 2 with truncation.
  The integers are the mathematical ones and the sort is the one of the library, so
  that nothing of the code takes part in it.
\<close>

definition statistical_median :: "int list \<Rightarrow> int" where
  "statistical_median S =
     (let T = sort S; n = length T
      in if odd n then T ! (n div 2) else (T ! (n div 2 - 1) + T ! (n div 2)) sdiv 2)"

text \<open>
  A comparison function is a total order on a set \<open>A\<close> of Datums, the Datums of the
  values of a type, when on \<open>A\<close> it returns 0 exactly on equal Datums, is antisymmetric
  in its sign and is transitive. \<open>sorted_by\<close> is the order of a sequence under it, and
  \<open>qsort_arg_sorts\<close> is the contract of \<open>qsort_arg\<close> on sequences of such Datums:
  its result is a rearrangement of the array section that is in order.
\<close>

definition total_order_cmp :: "Datum set \<Rightarrow> (Datum \<Rightarrow> Datum \<Rightarrow> int) \<Rightarrow> bool" where
  "total_order_cmp A cmp \<longleftrightarrow>
     (\<forall>a \<in> A. \<forall>b \<in> A. (cmp a b = 0 \<longleftrightarrow> a = b) \<and> (cmp a b < 0 \<longleftrightarrow> 0 < cmp b a)) \<and>
     (\<forall>a \<in> A. \<forall>b \<in> A. \<forall>c \<in> A. cmp a b \<le> 0 \<longrightarrow> cmp b c \<le> 0 \<longrightarrow> cmp a c \<le> 0)"

definition sorted_by :: "(Datum \<Rightarrow> Datum \<Rightarrow> int) \<Rightarrow> Datum list \<Rightarrow> bool" where
  "sorted_by cmp xs \<longleftrightarrow> sorted_wrt (\<lambda>a b. cmp a b \<le> 0) xs"

definition qsort_arg_sorts :: "Datum set \<Rightarrow> pg_env \<Rightarrow> (Datum \<Rightarrow> Datum \<Rightarrow> int) \<Rightarrow> bool" where
  "qsort_arg_sorts A pg cmp \<longleftrightarrow>
     (\<forall>xs. set xs \<subseteq> A \<longrightarrow>
        mset (qsort_arg pg cmp xs) = mset xs \<and> sorted_by cmp (qsort_arg pg cmp xs))"

text \<open>The Datums of the values of \<open>int4\<close>: the 32-bit integers with the sign extended.\<close>

definition int4_Datums :: "Datum set" where
  "int4_Datums = Int32GetDatum ` {- (2 ^ 31) ..< 2 ^ 31}"

section \<open>Example environments\<close>

text \<open>
  An environment for the type \<open>int8\<close>: a by-value type of 8 bytes, compared as signed
  64-bit integers the way PostgreSQL's \<open>btint8cmp\<close> does, with insertion sort for
  \<open>qsort_arg\<close>. The floating-point and numeric functions are not used for this type.
  \<open>pg_int4\<close> is the same for \<open>int4\<close>, a by-value type of 4 bytes compared as
  \<open>btint4cmp\<close> does.
\<close>

definition btint8cmp :: "Datum \<Rightarrow> Datum \<Rightarrow> Datum" where
  "btint8cmp a b =
     Int32GetDatum (if DatumGetInt64 a > DatumGetInt64 b then 1
                    else if DatumGetInt64 a = DatumGetInt64 b then 0 else - 1)"

definition pg_int8 :: pg_env where
  "pg_int8 =
     \<lparr>AggCheckCallContext = True,
      get_fn_expr_argtype = INT8OID,
      lookup_type_cache = (\<lambda>t f. \<lparr>type_id = t, cmp_proc_fn_oid = 842, typcollation = 0\<rparr>),
      get_typlenbyvalalign = (\<lambda>t. (8, True)),
      datumIsEqual = (\<lambda>a b byval len. a = b),
      FunctionCall2Coll = (\<lambda>fn coll a b. btint8cmp a b),
      qsort_arg = sort_by,
      float4_add = (\<lambda>a b. 0), float4_div = (\<lambda>a b. 0), float4_of_int = (\<lambda>k. 0),
      float8_add = (\<lambda>a b. 0), float8_div = (\<lambda>a b. 0), float8_of_int = (\<lambda>k. 0),
      numeric_add = (\<lambda>a b. 0), numeric_div = (\<lambda>a b. 0), int4_numeric = (\<lambda>a. 0)\<rparr>"

definition btint4cmp :: "Datum \<Rightarrow> Datum \<Rightarrow> Datum" where
  "btint4cmp a b =
     Int32GetDatum (if DatumGetInt32 a > DatumGetInt32 b then 1
                    else if DatumGetInt32 a = DatumGetInt32 b then 0 else - 1)"

definition pg_int4 :: pg_env where
  "pg_int4 =
     pg_int8\<lparr>get_fn_expr_argtype := INT4OID,
             lookup_type_cache := (\<lambda>t f. \<lparr>type_id = t, cmp_proc_fn_oid = 351, typcollation = 0\<rparr>),
             get_typlenbyvalalign := (\<lambda>t. (4, True)),
             FunctionCall2Coll := (\<lambda>fn coll a b. btint4cmp a b)\<rparr>"

section \<open>Example states\<close>

text \<open>The type cache entry of \<open>int8\<close> in \<open>pg_int8\<close>, the state that
  \<open>init_median_state\<close> creates there, and the state after the values 1, 3 and 2.\<close>

definition te_int8 :: TypeCacheEntry where
  "te_int8 = \<lparr>type_id = INT8OID, cmp_proc_fn_oid = 842, typcollation = 0\<rparr>"

definition state_init_int8 :: MedianState where
  "state_init_int8 = \<lparr>inputTypeId = INT8OID, count = 0, allocated = 8,
                 values_arr = [0, 0, 0, 0, 0, 0, 0, 0], typentry = te_int8\<rparr>"

definition state_132 :: MedianState where
  "state_132 = \<lparr>inputTypeId = INT8OID, count = 3, allocated = 8,
                 values_arr = [1, 3, 2, 0, 0, 0, 0, 0], typentry = te_int8\<rparr>"

text \<open>The states of type \<open>int8\<close> that hold the values 1 to 7, the values 1, 2, 3, the
  values 1, 5 and the values 1, 2, 3, 4, each in an array of 8 slots.\<close>

definition state_seven :: MedianState where
  "state_seven = \<lparr>inputTypeId = INT8OID, count = 7, allocated = 8,
                   values_arr = [1, 2, 3, 4, 5, 6, 7, 0], typentry = te_int8\<rparr>"

definition state_123 :: MedianState where
  "state_123 = \<lparr>inputTypeId = INT8OID, count = 3, allocated = 8,
                 values_arr = [1, 2, 3, 0, 0, 0, 0, 0], typentry = te_int8\<rparr>"

definition state_15 :: MedianState where
  "state_15 = \<lparr>inputTypeId = INT8OID, count = 2, allocated = 8,
                values_arr = [1, 5, 0, 0, 0, 0, 0, 0], typentry = te_int8\<rparr>"

definition state_1234 :: MedianState where
  "state_1234 = \<lparr>inputTypeId = INT8OID, count = 4, allocated = 8,
                  values_arr = [1, 2, 3, 4, 0, 0, 0, 0], typentry = te_int8\<rparr>"

text \<open>
  The type cache entry of \<open>int4\<close> in \<open>pg_int4\<close>, the state that
  \<open>init_median_state\<close> creates there, the state after the values 1600000000,
  2000000000, 7 and 1500000000, and a state of type \<open>int8\<close> that holds 6000000000000000000, 1,
  5000000000000000000 and 7000000000000000000.
\<close>

definition te_int4 :: TypeCacheEntry where
  "te_int4 = \<lparr>type_id = INT4OID, cmp_proc_fn_oid = 351, typcollation = 0\<rparr>"

definition state_init_int4 :: MedianState where
  "state_init_int4 = \<lparr>inputTypeId = INT4OID, count = 0, allocated = 8,
                 values_arr = [0, 0, 0, 0, 0, 0, 0, 0], typentry = te_int4\<rparr>"

definition state_int4_large :: MedianState where
  "state_int4_large = \<lparr>inputTypeId = INT4OID, count = 4, allocated = 8,
       values_arr = [1600000000, 2000000000, 7, 1500000000, 0, 0, 0, 0], typentry = te_int4\<rparr>"

definition state_int8_large :: MedianState where
  "state_int8_large = \<lparr>inputTypeId = INT8OID, count = 4, allocated = 8,
       values_arr = [6000000000000000000, 1, 5000000000000000000, 7000000000000000000,
                     0, 0, 0, 0],
       typentry = te_int8\<rparr>"

section \<open>The layout of the serialized state\<close>

text \<open>
  The record of one value, as the serialization writes it: the null flag, which is 1 for
  the Datum 0 and is then the whole record, and otherwise 0, followed for a
  variable-length type by the 4-byte length and the bytes of the object, and for any
  other type by the 8 bytes of the Datum itself.
\<close>

definition datum_record :: "bool \<Rightarrow> (Datum \<Rightarrow> byte list) \<Rightarrow> Datum \<Rightarrow> byte list" where
  "datum_record is_varlena mem v =
     (if v = 0 then [1]
      else 0 # (if is_varlena then bytes_of_int32 (int (length (mem v))) @ mem v
                else bytes_of_Datum v))"

text \<open>
  The layout that the specification declares (section 4.5), in its words: the type
  identifier in 4 bytes, the count and the capacity in 8 bytes each, then for each of the
  \<open>count\<close> values a null flag of 1 byte and, when the flag is 0, the raw value bytes in
  the fixed width of the type for a fixed-width value, or a 4-byte length and the payload
  for a variable-width value.
\<close>

definition declared_record :: "int \<Rightarrow> (Datum \<Rightarrow> byte list) \<Rightarrow> Datum \<Rightarrow> byte list" where
  "declared_record typlen mem v =
     (if v = 0 then [1]
      else 0 # (if typlen = -1 \<or> typlen = -2
                then bytes_of_int32 (int (length (mem v))) @ mem v
                else le_bytes (nat typlen) (unat v)))"

definition declared_layout :: "pg_env \<Rightarrow> (Datum \<Rightarrow> byte list) \<Rightarrow> MedianState \<Rightarrow> byte list" where
  "declared_layout pg mem s =
     bytes_of_Oid (inputTypeId s) @ bytes_of_int64 (count s) @ bytes_of_int64 (allocated s)
     @ concat (map (declared_record (fst (get_typlenbyvalalign pg (inputTypeId s))) mem)
                 (contents s))"

text \<open>
  Two Datums have the same representation when they are the same word or, for a value of
  a variable-length type, when they are the addresses of objects with the same bytes,
  each in its own memory.
\<close>

definition same_representation ::
  "bool \<Rightarrow> (Datum \<Rightarrow> byte list) \<Rightarrow> Datum \<Rightarrow> (Datum \<Rightarrow> byte list) \<Rightarrow> Datum \<Rightarrow> bool" where
  "same_representation is_varlena mem v mem' v' \<longleftrightarrow>
     (if is_varlena \<and> v \<noteq> 0 then v' \<noteq> 0 \<and> mem' v' = mem v else v' = v)"

text \<open>
  The conditions on the memory for a state of a variable-length type: every object that
  the state refers to is within \<open>MaxAllocSize\<close>, and \<open>palloc\<close> has a fresh address,
  not null, for the copy of each.
\<close>

definition varlena_ok ::
  "bool \<Rightarrow> (Datum \<Rightarrow> byte list) \<Rightarrow> Datum list \<Rightarrow> Datum list \<Rightarrow> bool" where
  "varlena_ok is_varlena mem addrs vs \<longleftrightarrow>
     (is_varlena \<longrightarrow>
        (\<forall>v \<in> set vs. int (length (mem v)) \<le> MaxAllocSize)
        \<and> length vs \<le> length addrs \<and> distinct addrs \<and> 0 \<notin> set addrs)"

section \<open>Example states for the serialization\<close>

text \<open>
  A state of type \<open>int4\<close> that holds the value 5, and a state of type \<open>int8\<close> that
  holds 7, 0 and 9. \<open>no_mem\<close> is a memory without objects, for by-value types.
\<close>

definition state_int4_5 :: MedianState where
  "state_int4_5 = \<lparr>inputTypeId = INT4OID, count = 1, allocated = 8,
                    values_arr = [5, 0, 0, 0, 0, 0, 0, 0], typentry = te_int4\<rparr>"


definition no_mem :: "Datum \<Rightarrow> byte list" where
  "no_mem a = []"

text \<open>
  An environment for \<open>text\<close>, a variable-length type passed by reference (its type
  length is -1), compared here by the addresses. In the memory \<open>mem_text\<close> there are two
  objects, of 3 and of 2 bytes, at the addresses 4096 and 4104; the state \<open>state_text\<close>
  holds them.
\<close>

definition pg_text :: pg_env where
  "pg_text =
     pg_int8\<lparr>get_fn_expr_argtype := 25,
             lookup_type_cache :=
               (\<lambda>t f. \<lparr>type_id = t, cmp_proc_fn_oid = 360, typcollation = 100\<rparr>),
             get_typlenbyvalalign := (\<lambda>t. (- 1, False))\<rparr>"

definition mem_text :: "Datum \<Rightarrow> byte list" where
  "mem_text a = (if a = 4096 then [7, 104, 105] else if a = 4104 then [5, 33] else [])"

definition state_text :: MedianState where
  "state_text = \<lparr>inputTypeId = 25, count = 2, allocated = 8,
                  values_arr = [4096, 4104, 0, 0, 0, 0, 0, 0],
                  typentry = \<lparr>type_id = 25, cmp_proc_fn_oid = 360, typcollation = 100\<rparr>\<rparr>"

section \<open>Arithmetic within the range of the C types\<close>

lemma to_int64_id: "- (2 ^ 63) \<le> k \<Longrightarrow> k < 2 ^ 63 \<Longrightarrow> to_int64 k = k"
  by (simp add: to_int64_def signed_take_bit_int_eq_self)

lemma to_int32_id: "- (2 ^ 31) \<le> k \<Longrightarrow> k < 2 ^ 31 \<Longrightarrow> to_int32 k = k"
  by (simp add: to_int32_def signed_take_bit_int_eq_self)

lemma state_ok_bounds:
  assumes "state_ok s"
  shows "0 \<le> count s" "count s < allocated s" "allocated s < 2 ^ 27"
    "length (values_arr s) = nat (allocated s)" "array_ok s"
  using assms by (auto simp: state_ok_def array_ok_def MaxAllocSize_def)

section \<open>Adding an element\<close>

lemma add_step:
  assumes ok: "array_ok s" and b: "allocated s < 2 ^ 62"
  shows "count (add_input_element_median_state s v) = count s + 1"
    and "allocated (add_input_element_median_state s v)
           = (if allocated s \<le> count s + 1 then 2 * allocated s else allocated s)"
    and "array_ok (add_input_element_median_state s v)"
    and "contents (add_input_element_median_state s v) = contents s @ [v]"
    and "inputTypeId (add_input_element_median_state s v) = inputTypeId s"
    and "typentry (add_input_element_median_state s v) = typentry s"
proof -
  from ok b have c: "to_int64 (count s + 1) = count s + 1"
    "to_int64 (allocated s - 1) = allocated s - 1"
    "to_int64 (allocated s * 2) = allocated s * 2" "to_int64 (count s) = count s"
    by (auto simp: array_ok_def intro!: to_int64_id)
  show cnt: "count (add_input_element_median_state s v) = count s + 1"
    by (simp add: add_input_element_median_state_def Let_def c)
  show "allocated (add_input_element_median_state s v)
           = (if allocated s \<le> count s + 1 then 2 * allocated s else allocated s)"
    by (auto simp add: add_input_element_median_state_def Let_def c)
  show "array_ok (add_input_element_median_state s v)"
    using ok
    by (auto simp add: add_input_element_median_state_def Let_def c array_ok_def
        repalloc_Datums_def)
  show "contents (add_input_element_median_state s v) = contents s @ [v]"
  proof -
    define ws where "ws = (if allocated s - 1 < count s + 1
        then repalloc_Datums (values_arr s) (allocated s * 2) else values_arr s)"
    define n where "n = nat (count s)"
    have n: "n < length (values_arr s)" "nat (count s + 1) = Suc n"
      using ok by (auto simp: array_ok_def n_def)
    have ws: "n < length ws" "take n ws = take n (values_arr s)"
      using ok n by (auto simp: ws_def repalloc_Datums_def array_ok_def)
    have "values_arr (add_input_element_median_state s v) = ws[n := v]"
      by (simp add: add_input_element_median_state_def Let_def c ws_def n_def)
    moreover have "take (Suc n) (ws[n := v]) = take n ws @ [v]"
      using ws(1) by (simp add: take_Suc_conv_app_nth)
    ultimately show ?thesis
      using ws(2) n(2) by (simp add: contents_def cnt n_def)
  qed
  show "inputTypeId (add_input_element_median_state s v) = inputTypeId s"
    by (simp add: add_input_element_median_state_def Let_def c)
  show "typentry (add_input_element_median_state s v) = typentry s"
    by (simp add: add_input_element_median_state_def Let_def c)
qed

text \<open>Several elements in a row: \<open>foldl\<close> of the addition. The array grows to at most
  twice the number of values it holds.\<close>

lemma add_many:
  assumes "array_ok s" "allocated s \<le> 2 ^ 61" "count s + int (length xs) < 2 ^ 60"
  shows "array_ok (foldl add_input_element_median_state s xs)
       \<and> count (foldl add_input_element_median_state s xs) = count s + int (length xs)
       \<and> contents (foldl add_input_element_median_state s xs) = contents s @ xs
       \<and> allocated s \<le> allocated (foldl add_input_element_median_state s xs)
       \<and> allocated (foldl add_input_element_median_state s xs)
            \<le> max (allocated s) (2 * (count s + int (length xs)))
       \<and> inputTypeId (foldl add_input_element_median_state s xs) = inputTypeId s
       \<and> typentry (foldl add_input_element_median_state s xs) = typentry s"
  using assms
proof (induction xs arbitrary: s)
  case Nil
  then show ?case by simp
next
  case (Cons x xs)
  let ?s1 = "add_input_element_median_state s x"
  have b: "allocated s < 2 ^ 62" using Cons.prems(2) by simp
  note st = add_step [OF Cons.prems(1) b, of x]
  have a1: "allocated ?s1 \<le> 2 ^ 61"
    using st(2) Cons.prems by (auto simp: array_ok_def)
  have c1: "count ?s1 + int (length xs) < 2 ^ 60"
    using st(1) Cons.prems(3) by simp
  have m: "allocated s \<le> allocated ?s1" "allocated ?s1 \<le> max (allocated s) (2 * count ?s1)"
    using st(1,2) Cons.prems(1) by (auto simp: array_ok_def)
  note ih = Cons.IH [OF st(3) a1 c1]
  have "allocated (foldl add_input_element_median_state ?s1 xs)
          \<le> max (allocated s) (2 * (count s + int (length (x # xs))))"
    using ih m(2) st(1) by (simp add: max_def split: if_splits)
  moreover have "allocated s \<le> allocated (foldl add_input_element_median_state ?s1 xs)"
    using ih m(1) by linarith
  ultimately show ?case
    using ih st(1,4,5,6) by simp
qed

lemma run_transfn_Some:
  "run_transfn pg (Some s) (map Some xs) = Inr (Some (foldl add_input_element_median_state s xs))"
  by (induction xs arbitrary: s) (simp_all add: median_transfn_def)

lemma run_transfn_None:
  assumes "init_median_state pg = Inr s0" and "xs \<noteq> []"
  shows "run_transfn pg None (map Some xs)
           = Inr (Some (foldl add_input_element_median_state s0 xs))"
proof -
  from assms(2) obtain x xs' where xs: "xs = x # xs'" by (cases xs) auto
  show ?thesis
    by (simp add: xs median_transfn_def assms(1) run_transfn_Some)
qed

lemma init_median_state_ok:
  assumes "init_median_state pg = Inr s0"
  shows "count s0 = 0" "allocated s0 = 8" "state_ok s0" "contents s0 = []"
    "inputTypeId s0 = get_fn_expr_argtype pg"
    "typentry s0 = lookup_type_cache pg (get_fn_expr_argtype pg) TYPECACHE_CMP_PROC_FINFO"
  using assms
  by (auto simp: init_median_state_def get_type_comp_method_def Let_def state_ok_def array_ok_def
      palloc_Datums_def MaxAllocSize_def contents_def split: if_splits)

section \<open>The loop of the combine function\<close>

lemma combine_loop_foldl:
  "combine_loop s2 i s1
     = foldl add_input_element_median_state s1
         (map (\<lambda>j. values_arr s2 ! j) [i ..< nat (count s2)])"
proof (induction s2 i s1 rule: combine_loop.induct)
  case (1 state2 i state1)
  show ?case
  proof (cases "int i < count state2")
    case True
    then have "[i ..< nat (count state2)] = i # [Suc i ..< nat (count state2)]"
      by (simp add: upt_conv_Cons)
    with True "1.IH" show ?thesis
      by (subst combine_loop.simps) simp
  next
    case False
    then show ?thesis
      by (subst combine_loop.simps) simp
  qed
qed

lemma map_nth_take: "n \<le> length xs \<Longrightarrow> map ((!) xs) [0 ..< n] = take n xs"
  by (simp add: list_eq_iff_nth_eq)

lemma combine_loop_contents:
  assumes "array_ok s2"
  shows "combine_loop s2 0 s1 = foldl add_input_element_median_state s1 (contents s2)"
proof -
  have "nat (count s2) \<le> length (values_arr s2)"
    using assms by (auto simp: array_ok_def)
  then show ?thesis
    by (simp add: combine_loop_foldl contents_def map_nth_take)
qed

section \<open>The loop of the discard function\<close>

lemma discard_loop_length:
  "length (snd (discard_loop eq d n i f vs)) = length vs"
proof (induction eq d n i f vs rule: discard_loop.induct)
  case (1 eq datum num_elems i found elem_values)
  then show ?case
    by (subst discard_loop.simps) auto
qed

lemma discard_loop_found:
  "fst (discard_loop eq d n i f vs) \<Longrightarrow> f \<or> int i < n"
  by (subst (asm) discard_loop.simps) (auto split: if_splits)

lemma discard_loop_no_match:
  "(\<And>j. i \<le> j \<Longrightarrow> int j < n \<Longrightarrow> \<not> eq (vs ! j) d)
     \<Longrightarrow> discard_loop eq d n i False vs = (False, vs)"
proof (induction eq d n i "False" vs rule: discard_loop.induct)
  case (1 eq datum num_elems i elem_values)
  then show ?case
    by (subst discard_loop.simps) auto
qed

lemma discard_element_props:
  assumes "state_ok s"
  shows "array_ok (discard_element_median_state pg s d)"
    and "allocated (discard_element_median_state pg s d) = allocated s"
    and "count (discard_element_median_state pg s d) \<le> count s"
proof -
  obtain typlen typbyval where ti: "get_typlenbyvalalign pg (inputTypeId s) = (typlen, typbyval)"
    by (cases "get_typlenbyvalalign pg (inputTypeId s)")
  obtain found vs' where dl:
    "discard_loop (\<lambda>a b. datumIsEqual pg a b typbyval typlen) d (count s) 0 False (values_arr s)
       = (found, vs')"
    by (cases "discard_loop (\<lambda>a b. datumIsEqual pg a b typbyval typlen) d (count s) 0 False (values_arr s)")
  note b = state_ok_bounds [OF assms]
  have c32: "to_int32 (count s) = count s"
    using b by (intro to_int32_id) auto
  have len: "length vs' = length (values_arr s)"
    using discard_loop_length [of "\<lambda>a b. datumIsEqual pg a b typbyval typlen" d "count s" 0 False
        "values_arr s"] dl by simp
  have pos: "found \<Longrightarrow> 0 < count s"
    using discard_loop_found [of "\<lambda>a b. datumIsEqual pg a b typbyval typlen" d "count s" 0 False
        "values_arr s"] dl by simp
  have c64: "found \<Longrightarrow> to_int64 (count s - 1) = count s - 1"
    using b pos by (intro to_int64_id) auto
  show "array_ok (discard_element_median_state pg s d)"
    using b pos
    by (cases found) (auto simp: discard_element_median_state_def ti dl c32 c64 len array_ok_def Let_def)
  show "allocated (discard_element_median_state pg s d) = allocated s"
    by (simp add: discard_element_median_state_def ti dl c32 Let_def)
  show "count (discard_element_median_state pg s d) \<le> count s"
    by (cases found) (auto simp: discard_element_median_state_def ti dl c32 c64 Let_def)
qed

section \<open>Sorting under a comparison function\<close>

lemma mset_insert_by: "mset (insert_by cmp x ys) = add_mset x (mset ys)"
  by (induction ys) auto

lemma mset_sort_by: "mset (sort_by cmp xs) = mset xs"
  by (induction xs) (auto simp: mset_insert_by)

lemma set_insert_by: "set (insert_by cmp x ys) = insert x (set ys)"
  by (induction ys) auto

lemma sorted_insert_by:
  assumes "total_order_cmp A cmp" "x \<in> A" "set ys \<subseteq> A" "sorted_by cmp ys"
  shows "sorted_by cmp (insert_by cmp x ys)"
  using assms(3,4)
proof (induction ys)
  case Nil
  then show ?case by (simp add: sorted_by_def)
next
  case (Cons y ys)
  have tr: "\<And>a b c. a \<in> A \<Longrightarrow> b \<in> A \<Longrightarrow> c \<in> A
              \<Longrightarrow> cmp a b \<le> 0 \<Longrightarrow> cmp b c \<le> 0 \<Longrightarrow> cmp a c \<le> 0"
    using assms(1) unfolding total_order_cmp_def by blast
  have tot: "\<And>a b. a \<in> A \<Longrightarrow> b \<in> A \<Longrightarrow> \<not> cmp a b \<le> 0 \<Longrightarrow> cmp b a \<le> 0"
    using assms(1) unfolding total_order_cmp_def by (metis less_le not_le)
  have inA: "y \<in> A" "set ys \<subseteq> A" using Cons.prems(1) by auto
  show ?case
  proof (cases "cmp x y \<le> 0")
    case True
    have "\<forall>z \<in> set ys. cmp x z \<le> 0"
      using Cons.prems(2) True tr [OF assms(2) inA(1)] inA(2)
      by (auto simp: sorted_by_def)
    with True Cons.prems(2) show ?thesis by (auto simp: sorted_by_def)
  next
    case False
    have "cmp y x \<le> 0" using tot [OF assms(2) inA(1) False] .
    moreover have "sorted_by cmp (insert_by cmp x ys)"
      using Cons.IH [OF inA(2)] Cons.prems(2) by (simp add: sorted_by_def)
    ultimately show ?thesis
      using False Cons.prems(2) by (auto simp: sorted_by_def set_insert_by)
  qed
qed

lemma sorted_sort_by:
  "total_order_cmp A cmp \<Longrightarrow> set xs \<subseteq> A \<Longrightarrow> sorted_by cmp (sort_by cmp xs)"
proof (induction xs)
  case Nil
  then show ?case by (simp add: sorted_by_def)
next
  case (Cons x xs)
  have "set (sort_by cmp xs) \<subseteq> A"
    using Cons.prems(2) mset_sort_by [of cmp xs] by (metis set_mset_mset set_subset_Cons subset_trans)
  with Cons show ?case
    by (simp add: sorted_insert_by [of A])
qed

lemma sorted_by_unique:
  assumes "total_order_cmp A cmp"
  shows "set xs \<subseteq> A \<Longrightarrow> sorted_by cmp xs \<Longrightarrow> sorted_by cmp ys \<Longrightarrow> mset xs = mset ys
           \<Longrightarrow> xs = ys"
proof (induction xs arbitrary: ys)
  case Nil
  then show ?case by simp
next
  case (Cons x xs)
  from Cons.prems(4) obtain y ys' where ys: "ys = y # ys'"
    by (cases ys) auto
  have sub: "set ys \<subseteq> A"
    using Cons.prems(1,4) by (metis set_mset_mset)
  have anti: "\<And>a b. a \<in> A \<Longrightarrow> b \<in> A \<Longrightarrow> cmp a b \<le> 0 \<Longrightarrow> cmp b a \<le> 0 \<Longrightarrow> a = b"
    using assms unfolding total_order_cmp_def by (metis less_le not_le order.asym)
  have mem: "x \<in> set ys" "y \<in> set (x # xs)"
    using Cons.prems(4) ys by (metis list.set_intros(1) set_mset_mset)+
  have xy: "x \<in> A" "y \<in> A" using Cons.prems(1) sub ys by auto
  have "x = y"
  proof (cases "x = y")
    case True
    then show ?thesis .
  next
    case False
    with mem ys have "x \<in> set ys'" "y \<in> set xs" by auto
    then have "cmp y x \<le> 0" "cmp x y \<le> 0"
      using Cons.prems(2,3) ys by (auto simp: sorted_by_def)
    then show ?thesis using anti [OF xy] by simp
  qed
  moreover have "set xs \<subseteq> A" using Cons.prems(1) by simp
  ultimately show ?case
    using Cons ys by (auto simp: sorted_by_def)
qed

lemma qsort_arg_is_sort_by:
  assumes "total_order_cmp A cmp" "qsort_arg_sorts A pg cmp" "set xs \<subseteq> A"
  shows "qsort_arg pg cmp xs = sort_by cmp xs"
proof -
  have q: "mset (qsort_arg pg cmp xs) = mset xs" "sorted_by cmp (qsort_arg pg cmp xs)"
    using assms(2,3) by (simp_all add: qsort_arg_sorts_def)
  have "set (qsort_arg pg cmp xs) \<subseteq> A"
    using q(1) assms(3) by (metis set_mset_mset)
  then show ?thesis
    using sorted_by_unique [OF assms(1), of "qsort_arg pg cmp xs" "sort_by cmp xs"] q
      sorted_sort_by [OF assms(1,3)]
    by (simp add: mset_sort_by)
qed

section \<open>The median of a state\<close>

lemma sdiv_2_nonneg: "0 \<le> k \<Longrightarrow> k sdiv 2 = k div (2::int)"
  by (simp add: signed_divide_int_def sgn_if)

lemma smod_2_nonneg: "0 \<le> k \<Longrightarrow> k smod 2 = k mod (2::int)"
  by (simp add: signed_modulo_int_def sgn_if)

lemma calculate_median_sorted:
  assumes n: "0 < count s" "count s < 2 ^ 31"
    and vs: "values_arr s = T @ rest" "length T = nat (count s)"
  shows "calculate_median pg s =
     (let n = length T
      in if odd n then T ! (n div 2)
         else calculate_average pg (inputTypeId s) (T ! (n div 2 - 1)) (T ! (n div 2)))"
proof -
  define n where "n = length T"
  have cn: "count s = int n" using n vs by (simp add: n_def)
  have mid: "to_int32 (count s sdiv 2) = int (n div 2)"
    using n cn by (simp add: sdiv_2_nonneg to_int32_id zdiv_int)
  have par: "count s smod 2 = 0 \<longleftrightarrow> even n"
    using n cn by (simp add: smod_2_nonneg) presburger
  have i1: "n div 2 < length T" using n cn by (simp add: n_def)
  have i2: "nat (to_int32 (int (n div 2) - 1)) = n div 2 - 1"
  proof -
    have "to_int32 (int (n div 2) - 1) = int (n div 2) - 1"
      using n cn by (intro to_int32_id) auto
    then show ?thesis by simp
  qed
  have i3: "n div 2 - 1 < length T" using i1 by simp
  show ?thesis
    using i1 i3
    by (simp add: calculate_median_def Let_def mid par vs(1) nth_append i2 flip: n_def)
qed

lemma median_finalfn_reference:
  assumes ok: "array_ok s" and n: "0 < count s" "count s < 2 ^ 31"
    and tot: "total_order_cmp A (datum_qsort_compare pg (typentry s))"
    and qs: "qsort_arg_sorts A pg (datum_qsort_compare pg (typentry s))"
    and inA: "set (contents s) \<subseteq> A"
  shows "median_finalfn pg (Some s)
           = Some (reference_median (datum_qsort_compare pg (typentry s))
                     (calculate_average pg (inputTypeId s)) (contents s))"
proof -
  let ?cmp = "datum_qsort_compare pg (typentry s)"
  let ?T = "sort_by ?cmp (contents s)"
  have len: "length ?T = nat (count s)"
    using ok size_mset [of ?T] by (simp add: mset_sort_by contents_def array_ok_def)
  have vs: "values_arr (sort_values pg s) = ?T @ drop (nat (count s)) (values_arr s)"
    using qsort_arg_is_sort_by [OF tot qs inA]
    by (simp add: sort_values_def contents_def)
  have flds: "count (sort_values pg s) = count s" "inputTypeId (sort_values pg s) = inputTypeId s"
    by (simp_all add: sort_values_def)
  have "calculate_median pg (sort_values pg s)
          = reference_median ?cmp (calculate_average pg (inputTypeId s)) (contents s)"
    using calculate_median_sorted [of "sort_values pg s" ?T _ pg] n vs len
    by (simp add: flds reference_median_def Let_def)
  with n show ?thesis
    by (simp add: median_finalfn_def)
qed

section \<open>The example environment\<close>

lemma DatumGetInt32_Int32GetDatum: "DatumGetInt32 (Int32GetDatum k) = to_int32 k"
  by (simp add: DatumGetInt32_def Int32GetDatum_def to_int32_def signed_ucast_eq unsigned_of_int
      signed_of_int signed_take_bit_take_bit)

lemma DatumGetInt64_Int64GetDatum: "DatumGetInt64 (Int64GetDatum k) = to_int64 k"
  by (simp add: DatumGetInt64_def Int64GetDatum_def to_int64_def signed_of_int)

lemma cmp_int8:
  "datum_qsort_compare pg_int8 te a b
     = (if sint a > sint b then 1 else if a = b then 0 else - 1)"
  by (simp add: datum_qsort_compare_def pg_int8_def btint8cmp_def DatumGetInt64_def
      DatumGetInt32_Int32GetDatum to_int32_def word_eq_iff_signed [where ?'a = int])

lemma total_order_cmp_int8: "total_order_cmp UNIV (datum_qsort_compare pg_int8 te)"
  unfolding total_order_cmp_def cmp_int8
  by (auto simp: not_less order.order_iff_strict word_eq_iff_signed [where ?'a = int]
      split: if_splits)

lemma qsort_arg_sorts_int8: "qsort_arg_sorts UNIV pg_int8 (datum_qsort_compare pg_int8 te)"
  unfolding qsort_arg_sorts_def
  using sorted_sort_by [OF total_order_cmp_int8 [of te]]
  by (simp add: pg_int8_def mset_sort_by)

text \<open>The comparison of \<open>int4\<close> is a total order on the Datums of \<open>int4\<close> values, which
  insertion sort puts in order.\<close>

lemma cmp_int4:
  "datum_qsort_compare pg_int4 te a b
     = (if DatumGetInt32 a > DatumGetInt32 b then 1
        else if DatumGetInt32 a = DatumGetInt32 b then 0 else - 1)"
  by (simp add: datum_qsort_compare_def pg_int4_def pg_int8_def btint4cmp_def
      DatumGetInt32_Int32GetDatum to_int32_def)

lemma DatumGetInt32_inj_on: "inj_on DatumGetInt32 int4_Datums"
proof (rule inj_onI)
  fix a b assume a: "a \<in> int4_Datums" and b: "b \<in> int4_Datums"
    and e: "DatumGetInt32 a = DatumGetInt32 b"
  from a obtain k where k: "a = Int32GetDatum k" "- (2 ^ 31) \<le> k" "k < 2 ^ 31"
    by (auto simp: int4_Datums_def)
  from b obtain l where l: "b = Int32GetDatum l" "- (2 ^ 31) \<le> l" "l < 2 ^ 31"
    by (auto simp: int4_Datums_def)
  have "DatumGetInt32 a = k" "DatumGetInt32 b = l"
    using k l by (simp_all add: DatumGetInt32_Int32GetDatum to_int32_id)
  with e k l show "a = b" by simp
qed

lemma total_order_cmp_int4: "total_order_cmp int4_Datums (datum_qsort_compare pg_int4 te)"
  unfolding total_order_cmp_def cmp_int4
  using DatumGetInt32_inj_on
  by (auto simp: not_less order.order_iff_strict inj_on_def split: if_splits)

lemma qsort_arg_sorts_int4:
  "qsort_arg_sorts int4_Datums pg_int4 (datum_qsort_compare pg_int4 te)"
  unfolding qsort_arg_sorts_def
  using sorted_sort_by [OF total_order_cmp_int4 [of te]]
  by (simp add: pg_int4_def pg_int8_def mset_sort_by)

lemma init_int8: "init_median_state pg_int8 = Inr state_init_int8"
  by code_simp

section \<open>The final function sorts and takes the middle\<close>

text \<open>
  Let the comparison function of the state's type be a total order on the Datums of
  the type's values and let \<open>qsort_arg\<close> sort sequences of them. For every well-formed
  state \<open>s\<close> that holds at least one value,
  \<open>median_finalfn\<close> sorts the slots below \<open>count\<close> under the comparison function and
  returns the element at index \<open>count div 2\<close> of the sorted slots when \<open>count\<close> is odd,
  and \<open>calculate_average\<close> of the elements at indices \<open>count div 2 - 1\<close> and
  \<open>count div 2\<close> when it is even. The same holds of the state that the transition
  function builds from a non-empty sequence \<open>S\<close> of fewer than \<open>2 ^ 31\<close> values,
  starting without a state. \<open>reference_median\<close> is no more than that: a sort by
  insertion in place of \<open>qsort_arg\<close>, the index, and whatever \<open>calculate_average\<close>
  makes of the two middle elements.
\<close>

lemma median_finalfn_sorts_and_indexes:
  assumes tot: "total_order_cmp A (datum_qsort_compare pg te)"
    and qs: "qsort_arg_sorts A pg (datum_qsort_compare pg te)"
  shows "(state_ok s \<and> typentry s = te \<and> 0 < count s \<and> set (contents s) \<subseteq> A \<longrightarrow>
            sorted_by (datum_qsort_compare pg te) (contents (sort_values pg s)) \<and>
            mset (contents (sort_values pg s)) = mset (contents s) \<and>
            median_finalfn pg (Some s) =
              Some (let T = contents (sort_values pg s); n = nat (count s)
                    in if odd n then T ! (n div 2)
                       else calculate_average pg (inputTypeId s)
                              (T ! (n div 2 - 1)) (T ! (n div 2))) \<and>
            median_finalfn pg (Some s) =
              Some (reference_median (datum_qsort_compare pg te)
                      (calculate_average pg (inputTypeId s)) (contents s)))
       \<and> (init_median_state pg = Inr s0 \<and> typentry s0 = te \<and> S \<noteq> [] \<and> length S < 2 ^ 31
           \<and> set S \<subseteq> A \<longrightarrow>
            (\<exists>s. run_transfn pg None (map Some S) = Inr (Some s) \<and>
                 median_finalfn pg (Some s) =
                   Some (reference_median (datum_qsort_compare pg te)
                           (calculate_average pg (inputTypeId s0)) S)))"
proof (intro conjI impI)
  assume a: "state_ok s \<and> typentry s = te \<and> 0 < count s \<and> set (contents s) \<subseteq> A"
  note b = state_ok_bounds [of s]
  have n: "0 < count s" "count s < 2 ^ 31" using a b by auto
  have te: "typentry s = te" using a by simp
  have inA: "set (contents s) \<subseteq> A" using a by simp
  let ?cmp = "datum_qsort_compare pg te"
  have len: "length (sort_by ?cmp (contents s)) = nat (count s)"
    using a b size_mset [of "sort_by ?cmp (contents s)"] by (simp add: mset_sort_by contents_def)
  have "qsort_arg pg ?cmp (take (nat (count s)) (values_arr s)) = sort_by ?cmp (contents s)"
    using qsort_arg_is_sort_by [OF tot qs inA] by (simp add: contents_def)
  then have cs: "contents (sort_values pg s) = sort_by ?cmp (contents s)"
    using len by (simp add: contents_def sort_values_def te)
  show "sorted_by ?cmp (contents (sort_values pg s))"
    by (simp add: cs sorted_sort_by [OF tot inA])
  show "mset (contents (sort_values pg s)) = mset (contents s)"
    by (simp add: cs mset_sort_by)
  show r: "median_finalfn pg (Some s) =
              Some (reference_median ?cmp (calculate_average pg (inputTypeId s)) (contents s))"
    using median_finalfn_reference [of s A pg] a b n tot qs by (simp add: te)
  show "median_finalfn pg (Some s) =
              Some (let T = contents (sort_values pg s); n = nat (count s)
                    in if odd n then T ! (n div 2)
                       else calculate_average pg (inputTypeId s)
                              (T ! (n div 2 - 1)) (T ! (n div 2)))"
    by (simp add: r cs reference_median_def Let_def len)
next
  assume a: "init_median_state pg = Inr s0 \<and> typentry s0 = te \<and> S \<noteq> [] \<and> length S < 2 ^ 31
      \<and> set S \<subseteq> A"
  let ?s = "foldl add_input_element_median_state s0 S"
  note i = init_median_state_ok [of pg s0]
  have "array_ok s0" "allocated s0 \<le> 2 ^ 61" "count s0 + int (length S) < 2 ^ 60"
    using a i by (auto simp: state_ok_def)
  from add_many [OF this] a i
  have f: "array_ok ?s" "count ?s = int (length S)" "contents ?s = S"
    "inputTypeId ?s = inputTypeId s0" "typentry ?s = te"
    by auto
  have "median_finalfn pg (Some ?s) =
          Some (reference_median (datum_qsort_compare pg te)
                  (calculate_average pg (inputTypeId s0)) S)"
    using median_finalfn_reference [of ?s A pg] f a tot qs by simp
  moreover have "run_transfn pg None (map Some S) = Inr (Some ?s)"
    using run_transfn_None [of pg s0 S] a by simp
  ultimately show "\<exists>s. run_transfn pg None (map Some S) = Inr (Some s) \<and>
       median_finalfn pg (Some s) =
         Some (reference_median (datum_qsort_compare pg te)
                 (calculate_average pg (inputTypeId s0)) S)"
    by blast
qed

lemma state_132_ok: "state_ok state_132"
  by (simp add: state_ok_def array_ok_def state_132_def MaxAllocSize_def)

lemma ref_132:
  "reference_median (datum_qsort_compare pg_int8 te_int8) (calculate_average pg_int8 INT8OID)
     [1, 3, 2] = 2"
  by (simp add: reference_median_def cmp_int8)

text \<open>At the values 1, 3, 2 of type \<open>int8\<close> the result is 2.\<close>

lemma median_finalfn_sorts_and_indexes_int8:
  "median_finalfn pg_int8 (Some state_132) = Some 2
   \<and> (\<exists>s. run_transfn pg_int8 None (map Some [1, 3, 2]) = Inr (Some s)
          \<and> median_finalfn pg_int8 (Some s) = Some 2)"
proof -
  note t = median_finalfn_sorts_and_indexes
    [OF total_order_cmp_int8 qsort_arg_sorts_int8,
      where te = te_int8 and s = state_132 and ?s0.0 = state_init_int8 and S = "[1, 3, 2]"]
  have h1: "state_ok state_132 \<and> typentry state_132 = te_int8 \<and> 0 < count state_132
      \<and> set (contents state_132) \<subseteq> UNIV"
    by (simp add: state_132_ok) (simp add: state_132_def)
  have h2: "init_median_state pg_int8 = Inr state_init_int8 \<and> typentry state_init_int8 = te_int8
      \<and> [1, 3, 2 :: Datum] \<noteq> [] \<and> length [1, 3, 2 :: Datum] < 2 ^ 31
      \<and> set [1, 3, 2 :: Datum] \<subseteq> UNIV"
    by (simp add: init_int8) (simp add: state_init_int8_def)
  have c: "contents state_132 = [1, 3, 2]" "inputTypeId state_132 = INT8OID"
    "inputTypeId state_init_int8 = INT8OID"
    by (simp_all add: contents_def state_132_def state_init_int8_def)
  have a: "median_finalfn pg_int8 (Some state_132) = Some 2"
    using t [THEN conjunct1, rule_format, OF h1, unfolded c ref_132] by blast
  have b: "\<exists>s. run_transfn pg_int8 None (map Some [1, 3, 2]) = Inr (Some s)
          \<and> median_finalfn pg_int8 (Some s) = Some 2"
    using t [THEN conjunct2, rule_format, OF h2, unfolded c ref_132] by blast
  from a b show ?thesis by blast
qed

section \<open>Claim C1: the median of large integers\<close>

text \<open>
  C1 fails for the integer types at an even number of values. The transition function
  called on the \<open>int4\<close> values 1600000000, 2000000000, 7 and 1500000000, starting
  without a state, builds the state that holds them. The final function sorts them to
  7, 1500000000, 1600000000, 2000000000 and returns -597483648 for the two in the
  middle, because their sum is formed in 32 bits. The statistical median of the four
  values, by sorting and indexing over the integers, is 1550000000.
\<close>

theorem median_finalfn_int4_not_statistical_median:
  "run_transfn pg_int4 None
       (map Some (map Int32GetDatum [1600000000, 2000000000, 7, 1500000000]))
     = Inr (Some state_int4_large)
   \<and> map DatumGetInt32 (contents state_int4_large) = [1600000000, 2000000000, 7, 1500000000]
   \<and> map DatumGetInt32 (contents (sort_values pg_int4 state_int4_large))
        = [7, 1500000000, 1600000000, 2000000000]
   \<and> map_option DatumGetInt32 (median_finalfn pg_int4 (Some state_int4_large))
        = Some (- 597483648)
   \<and> statistical_median [1600000000, 2000000000, 7, 1500000000] = 1550000000"
proof (intro conjI)
  show "run_transfn pg_int4 None
       (map Some (map Int32GetDatum [1600000000, 2000000000, 7, 1500000000]))
     = Inr (Some state_int4_large)"
    by code_simp
  show "map DatumGetInt32 (contents state_int4_large)
          = [1600000000, 2000000000, 7, 1500000000]"
    by code_simp
  show "map DatumGetInt32 (contents (sort_values pg_int4 state_int4_large))
        = [7, 1500000000, 1600000000, 2000000000]"
    by code_simp
  show "map_option DatumGetInt32 (median_finalfn pg_int4 (Some state_int4_large))
        = Some (- 597483648)"
    by code_simp
  show "statistical_median [1600000000, 2000000000, 7, 1500000000] = 1550000000"
    by code_simp
qed

section \<open>Claim C9: the capacity of the array\<close>

lemma combine_Some_Some:
  assumes ok: "state_ok s1" "state_ok s2" and agg: "AggCheckCallContext pg"
  shows "combine_median_state pg (Some s1) (Some s2)
           = Inr (Some (foldl add_input_element_median_state s1 (contents s2)))"
    and "array_ok (foldl add_input_element_median_state s1 (contents s2))"
    and "count (foldl add_input_element_median_state s1 (contents s2)) = count s1 + count s2"
    and "contents (foldl add_input_element_median_state s1 (contents s2))
           = contents s1 @ contents s2"
    and "allocated s1 \<le> allocated (foldl add_input_element_median_state s1 (contents s2))"
    and "inputTypeId (foldl add_input_element_median_state s1 (contents s2)) = inputTypeId s1"
    and "typentry (foldl add_input_element_median_state s1 (contents s2)) = typentry s1"
proof -
  note b1 = state_ok_bounds [OF ok(1)] and b2 = state_ok_bounds [OF ok(2)]
  have len: "int (length (contents s2)) = count s2"
    using b2 by (simp add: contents_def)
  have h: "array_ok s1" "allocated s1 \<le> 2 ^ 61" "count s1 + int (length (contents s2)) < 2 ^ 60"
    using b1 b2 len by auto
  note m = add_many [OF h]
  show "combine_median_state pg (Some s1) (Some s2)
           = Inr (Some (foldl add_input_element_median_state s1 (contents s2)))"
    using agg by (simp add: combine_median_state_def combine_loop_contents [OF b2(5)])
  show "array_ok (foldl add_input_element_median_state s1 (contents s2))"
    and "count (foldl add_input_element_median_state s1 (contents s2)) = count s1 + count s2"
    and "contents (foldl add_input_element_median_state s1 (contents s2))
           = contents s1 @ contents s2"
    and "allocated s1 \<le> allocated (foldl add_input_element_median_state s1 (contents s2))"
    and "inputTypeId (foldl add_input_element_median_state s1 (contents s2)) = inputTypeId s1"
    and "typentry (foldl add_input_element_median_state s1 (contents s2)) = typentry s1"
    using m len by simp_all
qed

lemma combine_None_Some:
  assumes ok: "state_ok s2" and agg: "AggCheckCallContext pg"
  shows "\<exists>s'. combine_median_state pg None (Some s2) = Inr (Some s')
           \<and> inputTypeId s' = inputTypeId s2 \<and> typentry s' = typentry s2
           \<and> count s' = count s2 \<and> allocated s' = allocated s2
           \<and> contents s' = contents s2 \<and> state_ok s'"
  using agg state_ok_bounds [OF ok] ok
  by (simp add: combine_median_state_def contents_def memcpy_Datums_def palloc_Datums_def
      state_ok_def array_ok_def)

text \<open>
  C9, as the code has it. The capacity \<open>allocated\<close> is 8 in the state that
  \<open>init_median_state\<close> creates. In every well-formed state \<open>count\<close> is below the
  capacity, and it stays below it after an element is added or discarded. Adding an
  element doubles the capacity exactly when the new count reaches the capacity, that is
  when \<open>allocated \<le> count + 1\<close>, and leaves it unchanged otherwise. Discarding an
  element and sorting leave the capacity unchanged, combining into an existing state does
  not lower it, and combining into no state takes the capacity of the source.
\<close>

theorem capacity_invariant:
  assumes ok: "state_ok s"
  shows "(init_median_state pg = Inr s0 \<longrightarrow>
            allocated s0 = 8 \<and> count s0 < allocated s0 \<and> state_ok s0)
       \<and> count s < allocated s
       \<and> allocated (add_input_element_median_state s v)
            = (if allocated s \<le> count s + 1 then 2 * allocated s else allocated s)
       \<and> count (add_input_element_median_state s v)
            < allocated (add_input_element_median_state s v)
       \<and> allocated (discard_element_median_state pg s v) = allocated s
       \<and> count (discard_element_median_state pg s v)
            < allocated (discard_element_median_state pg s v)
       \<and> allocated (sort_values pg s) = allocated s
       \<and> (state_ok s2 \<and> AggCheckCallContext pg \<longrightarrow>
            (\<exists>s'. combine_median_state pg (Some s) (Some s2) = Inr (Some s')
                  \<and> allocated s \<le> allocated s' \<and> count s' < allocated s'))
       \<and> (AggCheckCallContext pg \<longrightarrow>
            (\<exists>s'. combine_median_state pg None (Some s) = Inr (Some s')
                  \<and> allocated s' = allocated s \<and> count s' < allocated s'))"
proof -
  note b = state_ok_bounds [OF ok]
  have b62: "allocated s < 2 ^ 62" using b by simp
  note a = add_step [OF b(5) b62, of v]
  note d = discard_element_props [OF ok, of pg v]
  have 1: "init_median_state pg = Inr s0 \<longrightarrow>
            allocated s0 = 8 \<and> count s0 < allocated s0 \<and> state_ok s0"
    using init_median_state_ok [of pg s0] by auto
  have 2: "state_ok s2 \<and> AggCheckCallContext pg \<longrightarrow>
            (\<exists>s'. combine_median_state pg (Some s) (Some s2) = Inr (Some s')
                  \<and> allocated s \<le> allocated s' \<and> count s' < allocated s')"
    using combine_Some_Some [OF ok, of s2 pg] by (auto simp: array_ok_def)
  have 3: "AggCheckCallContext pg \<longrightarrow>
            (\<exists>s'. combine_median_state pg None (Some s) = Inr (Some s')
                  \<and> allocated s' = allocated s \<and> count s' < allocated s')"
    using combine_None_Some [OF ok, of pg] b by auto
  have 4: "allocated (sort_values pg s) = allocated s"
    by (simp add: sort_values_def)
  have 5: "count s < allocated s" using b by simp
  have 6: "count (add_input_element_median_state s v)
            < allocated (add_input_element_median_state s v)"
    using a(3) by (simp add: array_ok_def)
  have 7: "count (discard_element_median_state pg s v)
            < allocated (discard_element_median_state pg s v)"
    using d(1) by (simp add: array_ok_def)
  from 1 2 3 4 5 6 7 a(2) d(2) show ?thesis
    by blast
qed

lemma state_seven_ok: "state_ok state_seven"
  by (simp add: state_ok_def array_ok_def state_seven_def MaxAllocSize_def)

text \<open>The theorem in the environment of \<open>int8\<close>, at the state that holds 1 to 7: the
  eighth value doubles the capacity to 16.\<close>

theorem capacity_invariant_witness:
  "allocated state_init_int8 = 8
   \<and> count state_seven < allocated state_seven
   \<and> allocated (add_input_element_median_state state_seven 8) = 16
   \<and> allocated (discard_element_median_state pg_int8 state_seven 8) = 8
   \<and> (\<exists>s'. combine_median_state pg_int8 (Some state_seven) (Some state_132) = Inr (Some s')
          \<and> 8 \<le> allocated s' \<and> count s' < allocated s')
   \<and> (\<exists>s'. combine_median_state pg_int8 None (Some state_seven) = Inr (Some s')
          \<and> allocated s' = 8 \<and> count s' < allocated s')"
proof -
  note t = capacity_invariant [OF state_seven_ok,
      where pg = pg_int8 and ?s0.0 = state_init_int8 and v = 8 and ?s2.0 = state_132]
  have agg: "AggCheckCallContext pg_int8" by (simp add: pg_int8_def)
  have al: "allocated state_seven = 8" "count state_seven = 7"
    by (simp_all add: state_seven_def)
  from t init_int8 state_132_ok agg show ?thesis
    by (simp add: al)
qed

text \<open>
  C9 as stated fails: the state that holds the values 1 to 7 in an array of 8 slots is
  reached by seven calls of the transition function, an eighth value fits the array
  (\<open>count + 1 \<le> allocated\<close>: the append does not exceed the capacity), and adding it
  doubles the capacity all the same.
\<close>

theorem capacity_doubled_before_exceeded:
  "run_transfn pg_int8 None (map Some [1, 2, 3, 4, 5, 6, 7]) = Inr (Some state_seven)
   \<and> count state_seven + 1 \<le> allocated state_seven
   \<and> allocated (add_input_element_median_state state_seven 8) = 2 * allocated state_seven"
  by code_simp

section \<open>What the loop of the discard function does\<close>

text \<open>Once an element has matched, the loop copies each later element of the first
  \<open>n\<close> one slot to the left, from the index at which it continues.\<close>

lemma discard_loop_shift:
  assumes "nat n \<le> length vs"
  shows "\<exists>ws. discard_loop eq d n i True vs = (True, ws) \<and> length ws = length vs
           \<and> (\<forall>j < length vs. ws ! j = (if i \<le> j \<and> int j < n - 1 then vs ! Suc j else vs ! j))"
  using assms
proof (induction "nat n - i" arbitrary: i vs)
  case 0
  then have "\<not> int i < n" by simp
  then show ?case
    by (subst discard_loop.simps) auto
next
  case (Suc m)
  then have lt: "int i < n" and m: "m = nat n - Suc i" by auto
  show ?case
  proof (cases "int i < n - 1")
    case True
    let ?vs1 = "vs[i := vs ! Suc i]"
    have l1: "nat n \<le> length ?vs1" using Suc.prems by simp
    from Suc.hyps(1) [OF m l1] obtain ws where
      w: "discard_loop eq d n (Suc i) True ?vs1 = (True, ws)" "length ws = length ?vs1"
        "\<forall>j < length ?vs1. ws ! j = (if Suc i \<le> j \<and> int j < n - 1 then ?vs1 ! Suc j else ?vs1 ! j)"
      by blast
    have il: "i < length vs" using True Suc.prems by linarith
    have "\<forall>j < length vs. ws ! j = (if i \<le> j \<and> int j < n - 1 then vs ! Suc j else vs ! j)"
    proof (intro allI impI)
      fix j assume j: "j < length vs"
      show "ws ! j = (if i \<le> j \<and> int j < n - 1 then vs ! Suc j else vs ! j)"
      proof (cases "j = i")
        case True
        with w(3) j il \<open>int i < n - 1\<close> show ?thesis by simp
      next
        case False
        with w(3) j show ?thesis by (auto simp: nth_list_update)
      qed
    qed
    with w(1,2) lt True show ?thesis
      by (subst discard_loop.simps) simp
  next
    case False
    from Suc.hyps(1) [OF m Suc.prems] obtain ws where
      w: "discard_loop eq d n (Suc i) True vs = (True, ws)" "length ws = length vs"
        "\<forall>j < length vs. ws ! j = (if Suc i \<le> j \<and> int j < n - 1 then vs ! Suc j else vs ! j)"
      by blast
    have "\<forall>j < length vs. ws ! j = (if i \<le> j \<and> int j < n - 1 then vs ! Suc j else vs ! j)"
      using w(3) False by auto
    with w(1,2) lt False show ?thesis
      by (subst discard_loop.simps) simp
  qed
qed

text \<open>Before the first match the loop changes nothing; at the match it sets the flag
  and goes on with the next index.\<close>

lemma discard_loop_first_match:
  assumes "int k < n" "eq (vs ! k) d" "\<forall>j<k. \<not> eq (vs ! j) d" "i \<le> k"
  shows "discard_loop eq d n i False vs = discard_loop eq d n (Suc k) True vs"
  using assms
proof (induction "k - i" arbitrary: i)
  case 0
  then have "i = k" by simp
  with 0 show ?case
    by (subst discard_loop.simps) simp
next
  case (Suc m)
  then have ik: "i < k" "m = k - Suc i" "Suc i \<le> k" by auto
  then have "int i < n" "\<not> eq (vs ! i) d" using Suc.prems by auto
  then show ?case
    using Suc.hyps(1) [OF ik(2) Suc.prems(1,2,3) ik(3)]
    by (subst discard_loop.simps) simp
qed

text \<open>
  The values that a state holds after \<open>discard_element_median_state\<close>, when the first
  element equal to the given one is at index \<open>k\<close>: the elements up to and including
  index \<open>k\<close> and the elements from index \<open>k + 2\<close> on. The matched element stays and
  the element after it is lost; only a match in the last place is removed itself.
\<close>

lemma discard_element_contents:
  assumes ok: "state_ok s"
    and ti: "get_typlenbyvalalign pg (inputTypeId s) = (typlen, typbyval)"
    and k: "k < length (contents s)" "datumIsEqual pg (contents s ! k) d typbyval typlen"
      "\<forall>j<k. \<not> datumIsEqual pg (contents s ! j) d typbyval typlen"
  shows "count (discard_element_median_state pg s d) = count s - 1"
    and "contents (discard_element_median_state pg s d)
           = (if Suc k < length (contents s)
              then take (Suc k) (contents s) @ drop (Suc (Suc k)) (contents s)
              else take k (contents s))"
proof -
  note b = state_ok_bounds [OF ok]
  let ?eq = "\<lambda>a b. datumIsEqual pg a b typbyval typlen"
  let ?vs = "values_arr s"
  define n where "n = nat (count s)"
  have lc: "length (contents s) = n" using b by (simp add: contents_def n_def)
  have cn: "count s = int n" using b by (simp add: n_def)
  have nl: "n \<le> length ?vs" using b by (simp add: n_def)
  have c32: "to_int32 (count s) = count s" using b by (intro to_int32_id) auto
  have kn: "k < n" using k(1) lc by simp
  have c64: "to_int64 (count s - 1) = count s - 1" using b kn cn by (intro to_int64_id) auto
  have nth: "\<And>j. j < n \<Longrightarrow> contents s ! j = ?vs ! j"
    by (simp add: contents_def n_def)
  have m1: "?eq (?vs ! k) d" using k(2) nth kn by simp
  have m2: "\<forall>j<k. \<not> ?eq (?vs ! j) d" using k(3) nth kn by simp
  have nn: "nat (count s) \<le> length ?vs" using nl by (simp add: n_def)
  from discard_loop_shift [OF nn, of ?eq d "Suc k"] obtain ws where
    w: "discard_loop ?eq d (count s) (Suc k) True ?vs = (True, ws)" "length ws = length ?vs"
      "\<forall>j < length ?vs. ws ! j = (if Suc k \<le> j \<and> int j < count s - 1 then ?vs ! Suc j else ?vs ! j)"
    by blast
  have kc: "int k < count s" using kn cn by simp
  have dl: "discard_loop ?eq d (count s) 0 False ?vs = (True, ws)"
    using discard_loop_first_match [of k "count s" ?eq ?vs d 0, OF kc m1 m2] w(1) by simp
  have st: "discard_element_median_state pg s d = s\<lparr>values_arr := ws, count := count s - 1\<rparr>"
    by (simp add: discard_element_median_state_def ti c32 dl c64 Let_def)
  show "count (discard_element_median_state pg s d) = count s - 1"
    by (simp add: st)
  have cw: "contents (discard_element_median_state pg s d) = take (n - 1) ws"
    using kn by (simp add: st contents_def cn nat_diff_distrib)
  have wj: "\<And>j. j < n - 1 \<Longrightarrow> ws ! j = (if Suc k \<le> j then ?vs ! Suc j else ?vs ! j)"
    using w(3) nl cn by auto
  show "contents (discard_element_median_state pg s d)
           = (if Suc k < length (contents s)
              then take (Suc k) (contents s) @ drop (Suc (Suc k)) (contents s)
              else take k (contents s))"
  proof (cases "Suc k < n")
    case True
    have "take (n - 1) ws = take (Suc k) (contents s) @ drop (Suc (Suc k)) (contents s)"
    proof (rule nth_equalityI)
      show "length (take (n - 1) ws)
              = length (take (Suc k) (contents s) @ drop (Suc (Suc k)) (contents s))"
        using True lc w(2) nl by simp
    next
      fix j assume "j < length (take (n - 1) ws)"
      then have j: "j < n - 1" by simp
      show "take (n - 1) ws ! j
              = (take (Suc k) (contents s) @ drop (Suc (Suc k)) (contents s)) ! j"
      proof (cases "j < Suc k")
        case jk: True
        with j True show ?thesis
          using wj [OF j] nth [of j] lc by (simp add: nth_append)
      next
        case jk: False
        then have e: "Suc (Suc k) + (j - Suc k) = Suc j" by simp
        have "Suc j < n" using j by simp
        with j True jk show ?thesis
          using wj [OF j] nth [of "Suc j"] lc by (simp add: nth_append e min_def)
      qed
    qed
    with True cw lc show ?thesis by simp
  next
    case False
    then have kn1: "k = n - 1" using kn by simp
    have "take (n - 1) ws = take k (contents s)"
    proof (rule nth_equalityI)
      show "length (take (n - 1) ws) = length (take k (contents s))"
        using kn1 lc w(2) nl by simp
    next
      fix j assume "j < length (take (n - 1) ws)"
      then have j: "j < n - 1" by simp
      have "\<not> Suc k \<le> j" "j < k" "j < n" using j kn1 by simp_all
      then show "take (n - 1) ws ! j = take k (contents s) ! j"
        using wj [OF j] nth [of j] j by simp
    qed
    with False cw lc show ?thesis by simp
  qed
qed

text \<open>When no element is equal to the given one, the state is unchanged.\<close>

lemma discard_element_no_match:
  assumes ok: "state_ok s"
    and ti: "get_typlenbyvalalign pg (inputTypeId s) = (typlen, typbyval)"
    and no: "\<forall>v \<in> set (contents s). \<not> datumIsEqual pg v d typbyval typlen"
  shows "discard_element_median_state pg s d = s"
proof -
  note b = state_ok_bounds [OF ok]
  have c32: "to_int32 (count s) = count s" using b by (intro to_int32_id) auto
  have "\<And>j. 0 \<le> j \<Longrightarrow> int j < count s
          \<Longrightarrow> \<not> datumIsEqual pg (values_arr s ! j) d typbyval typlen"
  proof -
    fix j :: nat assume "int j < count s"
    then have "j < length (contents s)" "contents s ! j = values_arr s ! j"
      using b by (simp_all add: contents_def)
    then show "\<not> datumIsEqual pg (values_arr s ! j) d typbyval typlen"
      using no by (metis nth_mem)
  qed
  then have "discard_loop (\<lambda>a b. datumIsEqual pg a b typbyval typlen) d (count s) 0 False
               (values_arr s) = (False, values_arr s)"
    by (rule discard_loop_no_match)
  then show ?thesis
    by (simp add: discard_element_median_state_def ti c32)
qed

section \<open>Claim C5: combining two states\<close>

text \<open>
  C5. In an aggregate context, \<open>combine_median_state\<close> returns the target unchanged
  when there is no source state. When there is a source state and no target state, the
  result is a state, a copy of the source: the same type and type cache entry, the same
  \<open>count\<close> and \<open>allocated\<close>, an array of \<open>allocated\<close> slots and the same values
  below \<open>count\<close>; this is so also for a source that holds no value, where the result
  is a new state without values and not the absent target. When both states are there,
  the result is the target after \<open>add_input_element_median_state\<close> of each value of
  the source below \<open>count\<close>, in the order of the source's array, so that it holds the
  target's values followed by the source's; for a source that holds no value it is the
  target unchanged.
\<close>

theorem combine_median_state_cases:
  assumes agg: "AggCheckCallContext pg"
  shows "combine_median_state pg st1 None = Inr st1
       \<and> (state_ok s2 \<longrightarrow>
            (\<exists>s'. combine_median_state pg None (Some s2) = Inr (Some s')
                  \<and> inputTypeId s' = inputTypeId s2 \<and> typentry s' = typentry s2
                  \<and> count s' = count s2 \<and> allocated s' = allocated s2
                  \<and> length (values_arr s') = nat (allocated s2)
                  \<and> contents s' = contents s2))
       \<and> (state_ok s1 \<and> state_ok s2 \<longrightarrow>
            combine_median_state pg (Some s1) (Some s2)
              = Inr (Some (foldl add_input_element_median_state s1 (contents s2)))
            \<and> contents (foldl add_input_element_median_state s1 (contents s2))
                = contents s1 @ contents s2
            \<and> count (foldl add_input_element_median_state s1 (contents s2))
                = count s1 + count s2)
       \<and> (state_ok s1 \<and> state_ok s2 \<and> count s2 = 0 \<longrightarrow>
            combine_median_state pg (Some s1) (Some s2) = Inr (Some s1))
       \<and> (state_ok s2 \<and> count s2 = 0 \<longrightarrow>
            (\<exists>s'. combine_median_state pg None (Some s2) = Inr (Some s')
                  \<and> count s' = 0 \<and> contents s' = [] \<and> allocated s' = allocated s2)
            \<and> combine_median_state pg None (Some s2) \<noteq> Inr None)"
proof (intro conjI impI)
  show "combine_median_state pg st1 None = Inr st1"
    using agg by (simp add: combine_median_state_def)
next
  assume ok: "state_ok s2"
  from combine_None_Some [OF ok agg] obtain s' where
    s': "combine_median_state pg None (Some s2) = Inr (Some s')"
      "inputTypeId s' = inputTypeId s2" "typentry s' = typentry s2" "count s' = count s2"
      "allocated s' = allocated s2" "contents s' = contents s2" "state_ok s'"
    by blast
  have "length (values_arr s') = nat (allocated s2)"
    using state_ok_bounds(4) [OF s'(7)] s'(5) by simp
  with s' show "\<exists>s'. combine_median_state pg None (Some s2) = Inr (Some s')
                  \<and> inputTypeId s' = inputTypeId s2 \<and> typentry s' = typentry s2
                  \<and> count s' = count s2 \<and> allocated s' = allocated s2
                  \<and> length (values_arr s') = nat (allocated s2)
                  \<and> contents s' = contents s2"
    by blast
next
  assume ok: "state_ok s1 \<and> state_ok s2"
  then have o: "state_ok s1" "state_ok s2" by simp_all
  note c = combine_Some_Some [OF o agg]
  show "combine_median_state pg (Some s1) (Some s2)
              = Inr (Some (foldl add_input_element_median_state s1 (contents s2)))"
    by (rule c(1))
  show "contents (foldl add_input_element_median_state s1 (contents s2))
                = contents s1 @ contents s2"
    by (rule c(4))
  show "count (foldl add_input_element_median_state s1 (contents s2)) = count s1 + count s2"
    by (rule c(3))
next
  assume ok: "state_ok s1 \<and> state_ok s2 \<and> count s2 = 0"
  then have o: "state_ok s1" "state_ok s2" and z: "contents s2 = []"
    by (simp_all add: contents_def)
  show "combine_median_state pg (Some s1) (Some s2) = Inr (Some s1)"
    using combine_Some_Some(1) [OF o agg] by (simp add: z)
next
  assume ok: "state_ok s2 \<and> count s2 = 0"
  then have o: "state_ok s2" and z: "count s2 = 0" by simp_all
  from combine_None_Some [OF o agg] obtain s' where
    s': "combine_median_state pg None (Some s2) = Inr (Some s')"
      "count s' = count s2" "contents s' = contents s2" "allocated s' = allocated s2"
    by blast
  have "contents s' = []" using s'(3) z by (simp add: contents_def)
  then show "\<exists>s'. combine_median_state pg None (Some s2) = Inr (Some s')
                  \<and> count s' = 0 \<and> contents s' = [] \<and> allocated s' = allocated s2"
    using s'(1,2,4) z by auto
next
  assume ok: "state_ok s2 \<and> count s2 = 0"
  show "combine_median_state pg None (Some s2) \<noteq> Inr None"
    using agg by (simp add: combine_median_state_def)
qed

lemma state_15_ok: "state_ok state_15"
  by (simp add: state_ok_def array_ok_def state_15_def MaxAllocSize_def)

text \<open>The theorem in the environment of \<open>int8\<close>: the values 1, 5 combined with the
  values 1, 3, 2, and with the state that holds no value.\<close>

theorem combine_median_state_cases_witness:
  "combine_median_state pg_int8 (Some state_15) None = Inr (Some state_15)
   \<and> (\<exists>s'. combine_median_state pg_int8 None (Some state_132) = Inr (Some s')
          \<and> count s' = 3 \<and> allocated s' = 8 \<and> contents s' = [1, 3, 2])
   \<and> (\<exists>s'. combine_median_state pg_int8 (Some state_15) (Some state_132) = Inr (Some s')
          \<and> contents s' = [1, 5, 1, 3, 2] \<and> count s' = 5)
   \<and> combine_median_state pg_int8 (Some state_15) (Some state_init_int8) = Inr (Some state_15)
   \<and> (\<exists>s'. combine_median_state pg_int8 None (Some state_init_int8) = Inr (Some s')
          \<and> count s' = 0 \<and> contents s' = [] \<and> allocated s' = 8)
   \<and> combine_median_state pg_int8 None (Some state_init_int8) \<noteq> Inr None"
proof -
  have agg: "AggCheckCallContext pg_int8" by (simp add: pg_int8_def)
  have c: "contents state_15 = [1, 5]" "contents state_132 = [1, 3, 2]"
    "count state_15 = 2" "count state_132 = 3" "allocated state_132 = 8"
    "count state_init_int8 = 0" "allocated state_init_int8 = 8"
    by (simp_all add: contents_def state_15_def state_132_def state_init_int8_def)
  have ok0: "state_ok state_init_int8"
    using init_median_state_ok(3) [OF init_int8] .
  note t1 = combine_median_state_cases [OF agg,
      where ?st1.0 = "Some state_15" and ?s1.0 = state_15 and ?s2.0 = state_132]
  note t2 = combine_median_state_cases [OF agg,
      where ?st1.0 = "Some state_15" and ?s1.0 = state_15 and ?s2.0 = state_init_int8]
  have a: "combine_median_state pg_int8 (Some state_15) None = Inr (Some state_15)"
    using t1 by blast
  have b: "\<exists>s'. combine_median_state pg_int8 None (Some state_132) = Inr (Some s')
          \<and> count s' = 3 \<and> allocated s' = 8 \<and> contents s' = [1, 3, 2]"
    using t1 state_132_ok by (simp only: c) blast
  have d: "\<exists>s'. combine_median_state pg_int8 (Some state_15) (Some state_132) = Inr (Some s')
          \<and> contents s' = [1, 5, 1, 3, 2] \<and> count s' = 5"
    using t1 state_132_ok state_15_ok by (simp only: c) simp
  have e: "combine_median_state pg_int8 (Some state_15) (Some state_init_int8)
             = Inr (Some state_15)"
    using t2 state_15_ok ok0 c(6) by blast
  have h: "state_ok state_init_int8 \<and> count state_init_int8 = 0"
    using ok0 c(6) by simp
  have f: "\<exists>s'. combine_median_state pg_int8 None (Some state_init_int8) = Inr (Some s')
          \<and> count s' = 0 \<and> contents s' = [] \<and> allocated s' = 8"
    using t2 [THEN conjunct2, THEN conjunct2, THEN conjunct2, THEN conjunct2, rule_format,
        OF h, THEN conjunct1]
    by (simp only: c)
  have g: "combine_median_state pg_int8 None (Some state_init_int8) \<noteq> Inr None"
    using t2 [THEN conjunct2, THEN conjunct2, THEN conjunct2, THEN conjunct2, rule_format,
        OF h, THEN conjunct2] .
  from a b d e f g show ?thesis by blast
qed

text \<open>
  C5, as the specification states it, fails for a source state that holds no value when
  there is no target state. Such a source is the state of a worker whose input rows were
  all NULL: the transition function creates the state and adds nothing. Combined into
  no target it gives a new state with \<open>count\<close> 0 and an array of 8 slots, where a
  no-op would leave no state; the inverse transition function accepts the one and
  raises an error on the other.
\<close>

theorem combine_empty_source_creates_state:
  "run_transfn pg_int8 None [None] = Inr (Some state_init_int8)
   \<and> count state_init_int8 = 0
   \<and> combine_median_state pg_int8 None (Some state_init_int8) = Inr (Some state_init_int8)
   \<and> combine_median_state pg_int8 None (Some state_init_int8) \<noteq> Inr None
   \<and> median_mtransfn pg_int8 (Some state_init_int8) (Some 1) = Inr state_init_int8
   \<and> median_mtransfn pg_int8 None (Some 1) = Inl NullState"
proof (intro conjI)
  show "run_transfn pg_int8 None [None] = Inr (Some state_init_int8)"
    by (simp add: median_transfn_def init_int8)
  show "count state_init_int8 = 0"
    by (simp add: state_init_int8_def)
  show c: "combine_median_state pg_int8 None (Some state_init_int8) = Inr (Some state_init_int8)"
    by code_simp
  show "combine_median_state pg_int8 None (Some state_init_int8) \<noteq> Inr None"
    by (simp add: c)
  show "median_mtransfn pg_int8 (Some state_init_int8) (Some 1) = Inr state_init_int8"
    by code_simp
  show "median_mtransfn pg_int8 None (Some 1) = Inl NullState"
    by (simp add: median_mtransfn_def)
qed

section \<open>Claims C3 and C4: discarding an element\<close>

text \<open>
  C3 fails on the code. The state holds the values 1, 2, 3 and the value 1 is
  discarded: the first match is at index 0. The loop skips index 0 and copies each
  later element one slot to the left starting at index 1, so the matched element stays
  and the element after it is overwritten: the state then holds 1, 3 instead of 2, 3.
  When no element matches, as for the value 7, the inverse transition function returns
  the state unchanged and raises no error.
\<close>

theorem discard_overwrites_element_after_match:
  "contents state_123 = [1, 2, 3]
   \<and> contents (discard_element_median_state pg_int8 state_123 1) = [1, 3]
   \<and> count (discard_element_median_state pg_int8 state_123 1) = 2
   \<and> median_mtransfn pg_int8 (Some state_123) (Some 7) = Inr state_123"
  by code_simp

text \<open>
  C4 fails on the code, by the same loop. The state holds 1, 5; the value 1 is added
  and then discarded. The count is 2 again, but the state holds 1, 1 and its median is 1,
  where the median of 1, 5 is 3.
\<close>

theorem discard_after_add_loses_element:
  "contents state_15 = [1, 5]
   \<and> median_finalfn pg_int8 (Some state_15) = Some 3
   \<and> count (discard_element_median_state pg_int8
              (add_input_element_median_state state_15 1) 1) = count state_15
   \<and> contents (discard_element_median_state pg_int8
                 (add_input_element_median_state state_15 1) 1) = [1, 1]
   \<and> median_finalfn pg_int8
        (Some (discard_element_median_state pg_int8
                 (add_input_element_median_state state_15 1) 1)) = Some 1"
  by code_simp

section \<open>The average of the two middle elements\<close>

lemma sdiv_2_truncates: "k sdiv 2 = (if 0 \<le> k then k div 2 else - ((- k) div 2))" for k :: int
  by (simp add: signed_divide_int_def sgn_if)

lemma to_int32_range: "- (2 ^ 31) \<le> to_int32 k" "to_int32 k < 2 ^ 31"
  using signed_take_bit_int_greater_eq_minus_exp [of 31 k] signed_take_bit_int_less_exp [of 31 k]
  by (simp_all add: to_int32_def)

lemma to_int64_range: "- (2 ^ 63) \<le> to_int64 k" "to_int64 k < 2 ^ 63"
  using signed_take_bit_int_greater_eq_minus_exp [of 63 k] signed_take_bit_int_less_exp [of 63 k]
  by (simp_all add: to_int64_def)

lemma half_in_int32: "to_int32 (to_int32 k sdiv 2) = to_int32 k sdiv 2"
  using to_int32_range [of k] by (intro to_int32_id) (auto simp: sdiv_2_truncates)

lemma half_in_int64: "to_int64 (to_int64 k sdiv 2) = to_int64 k sdiv 2"
  using to_int64_range [of k] by (intro to_int64_id) (auto simp: sdiv_2_truncates)

lemma type_oids_distinct:
  "INT4OID \<noteq> INT8OID" "INT4OID \<noteq> FLOAT4OID" "INT4OID \<noteq> FLOAT8OID" "INT4OID \<noteq> NUMERICOID"
  "INT8OID \<noteq> FLOAT4OID" "INT8OID \<noteq> FLOAT8OID" "INT8OID \<noteq> NUMERICOID"
  "FLOAT4OID \<noteq> FLOAT8OID" "FLOAT4OID \<noteq> NUMERICOID" "FLOAT8OID \<noteq> NUMERICOID"
  by (simp_all add: INT4OID_def INT8OID_def FLOAT4OID_def FLOAT8OID_def NUMERICOID_def)

text \<open>
  For a well-formed state with an even, positive \<open>count\<close>, \<open>median_finalfn\<close>
  returns \<open>calculate_average\<close> of the elements at indices \<open>count div 2 - 1\<close> and
  \<open>count div 2\<close> of the sorted array. \<open>calculate_average\<close> goes by the type:
  \<^item> for \<open>int4\<close> (and \<open>int8\<close>) the result, read as a signed 32-bit (64-bit) integer,
    is the sum of the two values, computed in that width, divided by 2 with truncation
    towards zero; when the sum of the two values fits the width this is the truncated
    half of their sum;
  \<^item> for \<open>float4\<close> and \<open>float8\<close> it is the floating-point division by 2 of their
    floating-point sum;
  \<^item> for \<open>numeric\<close> it is \<open>numeric_div\<close> of their \<open>numeric_add\<close> by the numeric 2;
  \<^item> for every other type it is the left element, and no error is raised.
\<close>

lemma calculate_average_by_type:
  "(state_ok s \<and> 0 < count s \<and> even (count s) \<longrightarrow>
      median_finalfn pg (Some s) =
        Some (calculate_average pg (inputTypeId s)
                (values_arr (sort_values pg s) ! (nat (count s) div 2 - 1))
                (values_arr (sort_values pg s) ! (nat (count s) div 2))))
   \<and> DatumGetInt32 (calculate_average pg INT4OID left right)
        = (let k = to_int32 (DatumGetInt32 left + DatumGetInt32 right)
           in if 0 \<le> k then k div 2 else - ((- k) div 2))
   \<and> (- (2 ^ 31) \<le> DatumGetInt32 left + DatumGetInt32 right
        \<and> DatumGetInt32 left + DatumGetInt32 right < 2 ^ 31 \<longrightarrow>
      DatumGetInt32 (calculate_average pg INT4OID left right)
        = (DatumGetInt32 left + DatumGetInt32 right) sdiv 2)
   \<and> DatumGetInt64 (calculate_average pg INT8OID left right)
        = (let k = to_int64 (DatumGetInt64 left + DatumGetInt64 right)
           in if 0 \<le> k then k div 2 else - ((- k) div 2))
   \<and> (- (2 ^ 63) \<le> DatumGetInt64 left + DatumGetInt64 right
        \<and> DatumGetInt64 left + DatumGetInt64 right < 2 ^ 63 \<longrightarrow>
      DatumGetInt64 (calculate_average pg INT8OID left right)
        = (DatumGetInt64 left + DatumGetInt64 right) sdiv 2)
   \<and> calculate_average pg FLOAT4OID left right
        = Float4GetDatum (float4_div pg (float4_add pg (DatumGetFloat4 left) (DatumGetFloat4 right))
                            (float4_of_int pg 2))
   \<and> calculate_average pg FLOAT8OID left right
        = Float8GetDatum (float8_div pg (float8_add pg (DatumGetFloat8 left) (DatumGetFloat8 right))
                            (float8_of_int pg 2))
   \<and> calculate_average pg NUMERICOID left right
        = numeric_div pg (numeric_add pg left right) (int4_numeric pg (Int32GetDatum 2))
   \<and> (tid \<noteq> INT4OID \<and> tid \<noteq> INT8OID \<and> tid \<noteq> FLOAT4OID \<and> tid \<noteq> FLOAT8OID
        \<and> tid \<noteq> NUMERICOID \<longrightarrow> calculate_average pg tid left right = left)"
proof (intro conjI impI)
  assume a: "state_ok s \<and> 0 < count s \<and> even (count s)"
  note b = state_ok_bounds [of s]
  define n where "n = nat (count s)"
  have cn: "count s = int n" "even n" "0 < n" "n < 2 ^ 31"
    using a b by (auto simp: n_def even_nat_iff)
  have mid: "to_int32 (count s sdiv 2) = int (n div 2)"
    using cn by (simp add: sdiv_2_nonneg to_int32_id zdiv_int)
  have par: "count s smod 2 = 0"
    using cn by (simp add: smod_2_nonneg)
  have i2: "nat (to_int32 (int (n div 2) - 1)) = n div 2 - 1"
  proof -
    have "to_int32 (int (n div 2) - 1) = int (n div 2) - 1"
      using cn by (intro to_int32_id) auto
    then show ?thesis by simp
  qed
  have "count s \<noteq> 0" using a by simp
  then show "median_finalfn pg (Some s) =
        Some (calculate_average pg (inputTypeId s)
                (values_arr (sort_values pg s) ! (nat (count s) div 2 - 1))
                (values_arr (sort_values pg s) ! (nat (count s) div 2)))"
    using mid par i2
    by (simp add: median_finalfn_def calculate_median_def Let_def sort_values_def flip: n_def)
next
  show "DatumGetInt32 (calculate_average pg INT4OID left right)
        = (let k = to_int32 (DatumGetInt32 left + DatumGetInt32 right)
           in if 0 \<le> k then k div 2 else - ((- k) div 2))"
  proof -
    have "DatumGetInt32 (calculate_average pg INT4OID left right)
            = to_int32 (DatumGetInt32 left + DatumGetInt32 right) sdiv 2"
      by (simp add: calculate_average_def Let_def DatumGetInt32_Int32GetDatum half_in_int32)
    then show ?thesis
      by (simp add: sdiv_2_truncates Let_def)
  qed
next
  assume "- (2 ^ 31) \<le> DatumGetInt32 left + DatumGetInt32 right
        \<and> DatumGetInt32 left + DatumGetInt32 right < 2 ^ 31"
  then have "to_int32 (DatumGetInt32 left + DatumGetInt32 right)
               = DatumGetInt32 left + DatumGetInt32 right"
    by (intro to_int32_id) auto
  then show "DatumGetInt32 (calculate_average pg INT4OID left right)
        = (DatumGetInt32 left + DatumGetInt32 right) sdiv 2"
    using half_in_int32 [of "DatumGetInt32 left + DatumGetInt32 right"]
    by (simp add: calculate_average_def Let_def DatumGetInt32_Int32GetDatum)
next
  show "DatumGetInt64 (calculate_average pg INT8OID left right)
        = (let k = to_int64 (DatumGetInt64 left + DatumGetInt64 right)
           in if 0 \<le> k then k div 2 else - ((- k) div 2))"
  proof -
    have "DatumGetInt64 (calculate_average pg INT8OID left right)
            = to_int64 (DatumGetInt64 left + DatumGetInt64 right) sdiv 2"
      by (simp add: calculate_average_def Let_def DatumGetInt64_Int64GetDatum half_in_int64
          type_oids_distinct [symmetric])
    then show ?thesis
      by (simp add: sdiv_2_truncates Let_def)
  qed
next
  assume "- (2 ^ 63) \<le> DatumGetInt64 left + DatumGetInt64 right
        \<and> DatumGetInt64 left + DatumGetInt64 right < 2 ^ 63"
  then have "to_int64 (DatumGetInt64 left + DatumGetInt64 right)
               = DatumGetInt64 left + DatumGetInt64 right"
    by (intro to_int64_id) auto
  then show "DatumGetInt64 (calculate_average pg INT8OID left right)
        = (DatumGetInt64 left + DatumGetInt64 right) sdiv 2"
    using half_in_int64 [of "DatumGetInt64 left + DatumGetInt64 right"]
    by (simp add: calculate_average_def Let_def DatumGetInt64_Int64GetDatum
        type_oids_distinct [symmetric])
next
  show "calculate_average pg FLOAT4OID left right
        = Float4GetDatum (float4_div pg (float4_add pg (DatumGetFloat4 left) (DatumGetFloat4 right))
                            (float4_of_int pg 2))"
    by (simp add: calculate_average_def Let_def type_oids_distinct [symmetric])
next
  show "calculate_average pg FLOAT8OID left right
        = Float8GetDatum (float8_div pg (float8_add pg (DatumGetFloat8 left) (DatumGetFloat8 right))
                            (float8_of_int pg 2))"
    by (simp add: calculate_average_def Let_def type_oids_distinct [symmetric])
next
  show "calculate_average pg NUMERICOID left right
        = numeric_div pg (numeric_add pg left right) (int4_numeric pg (Int32GetDatum 2))"
    by (simp add: calculate_average_def Let_def type_oids_distinct [symmetric])
next
  assume "tid \<noteq> INT4OID \<and> tid \<noteq> INT8OID \<and> tid \<noteq> FLOAT4OID \<and> tid \<noteq> FLOAT8OID
        \<and> tid \<noteq> NUMERICOID"
  then show "calculate_average pg tid left right = left"
    by (simp add: calculate_average_def)
qed

lemma state_1234_ok: "state_ok state_1234"
  by (simp add: state_ok_def array_ok_def state_1234_def MaxAllocSize_def)

text \<open>
  The lemma at the values 1, 2, 3, 4 of type \<open>int8\<close>, whose median is 2; at the
  \<open>int4\<close> values -3 and 0, whose average is -1 (and not -2); and at the type with Oid
  25, \<open>text\<close>, where the left element is returned.
\<close>

lemma calculate_average_by_type_examples:
  "median_finalfn pg_int8 (Some state_1234) = Some 2
   \<and> DatumGetInt32 (calculate_average pg_int4 INT4OID (Int32GetDatum (- 3)) (Int32GetDatum 0)) = - 1
   \<and> DatumGetInt64 (calculate_average pg_int8 INT8OID (Int64GetDatum (- 3)) (Int64GetDatum 0)) = - 1
   \<and> calculate_average pg_int8 25 7 9 = 7"
proof -
  note t = calculate_average_by_type [where s = state_1234 and pg = pg_int8]
  have h: "state_ok state_1234 \<and> 0 < count state_1234 \<and> even (count state_1234)"
    by (simp add: state_1234_ok) (simp add: state_1234_def)
  have v: "calculate_average pg_int8 (inputTypeId state_1234)
                (values_arr (sort_values pg_int8 state_1234) ! (nat (count state_1234) div 2 - 1))
                (values_arr (sort_values pg_int8 state_1234) ! (nat (count state_1234) div 2)) = 2"
    by code_simp
  have a: "median_finalfn pg_int8 (Some state_1234) = Some 2"
    using t [THEN conjunct1, rule_format, OF h] by (simp only: v)
  have g: "DatumGetInt32 (Int32GetDatum (- 3)) = - 3" "DatumGetInt32 (Int32GetDatum 0) = 0"
    "DatumGetInt64 (Int64GetDatum (- 3)) = - 3" "DatumGetInt64 (Int64GetDatum 0) = 0"
    by (simp_all add: DatumGetInt32_Int32GetDatum DatumGetInt64_Int64GetDatum to_int32_def
        to_int64_def)
  note t4 = calculate_average_by_type [where pg = pg_int4 and left = "Int32GetDatum (- 3)"
      and right = "Int32GetDatum 0"]
  have b: "DatumGetInt32 (calculate_average pg_int4 INT4OID (Int32GetDatum (- 3)) (Int32GetDatum 0))
            = - 1"
    using t4 [THEN conjunct2, THEN conjunct2, THEN conjunct1] by (simp add: g)
  note t8 = calculate_average_by_type [where pg = pg_int8 and left = "Int64GetDatum (- 3)"
      and right = "Int64GetDatum 0"]
  have c: "DatumGetInt64 (calculate_average pg_int8 INT8OID (Int64GetDatum (- 3)) (Int64GetDatum 0))
            = - 1"
    using t8 [THEN conjunct2, THEN conjunct2, THEN conjunct2, THEN conjunct2, THEN conjunct1]
    by (simp add: g)
  note to = calculate_average_by_type [where pg = pg_int8 and tid = 25 and left = 7 and right = 9]
  have d: "calculate_average pg_int8 25 7 9 = 7"
    using to by (simp add: INT4OID_def INT8OID_def FLOAT4OID_def FLOAT8OID_def NUMERICOID_def)
  from a b c d show ?thesis by blast
qed

section \<open>Claim C6: the average of two large integers\<close>

text \<open>
  C6 fails for the integer types. \<open>calculate_average\<close> adds the two middle values in
  the width of the type, \<open>(l + r) / 2\<close> on \<open>int32\<close> or \<open>int64\<close>, and the sum of two
  values of the type need not fit the type. For the \<open>int4\<close> values 1500000000 and
  1600000000 the result is -597483648, where the truncating division of their sum by 2
  is 1550000000; for the \<open>int8\<close> values 5000000000000000000 and
  6000000000000000000 it is -3723372036854775808, where the half of their sum is
  5500000000000000000. The final function returns that for the state of type \<open>int8\<close>
  that holds 6000000000000000000, 1, 5000000000000000000 and 7000000000000000000, whose
  middle elements after sorting are these two: a result below every value of the state.
\<close>

theorem calculate_average_integer_sum_overflows:
  "DatumGetInt32 (calculate_average pg_int4 INT4OID (Int32GetDatum 1500000000)
       (Int32GetDatum 1600000000)) = - 597483648
   \<and> (1500000000 + 1600000000) sdiv 2 = (1550000000 :: int)
   \<and> DatumGetInt64 (calculate_average pg_int8 INT8OID (Int64GetDatum 5000000000000000000)
       (Int64GetDatum 6000000000000000000)) = - 3723372036854775808
   \<and> (5000000000000000000 + 6000000000000000000) sdiv 2 = (5500000000000000000 :: int)
   \<and> state_ok state_int8_large
   \<and> contents (sort_values pg_int8 state_int8_large)
        = map Int64GetDatum [1, 5000000000000000000, 6000000000000000000, 7000000000000000000]
   \<and> median_finalfn pg_int8 (Some state_int8_large)
        = Some (Int64GetDatum (- 3723372036854775808))"
proof (intro conjI)
  show "DatumGetInt32 (calculate_average pg_int4 INT4OID (Int32GetDatum 1500000000)
       (Int32GetDatum 1600000000)) = - 597483648"
    by code_simp
  show "(1500000000 + 1600000000) sdiv 2 = (1550000000 :: int)"
    by (simp add: sdiv_2_nonneg)
  show "DatumGetInt64 (calculate_average pg_int8 INT8OID (Int64GetDatum 5000000000000000000)
       (Int64GetDatum 6000000000000000000)) = - 3723372036854775808"
    by code_simp
  show "(5000000000000000000 + 6000000000000000000) sdiv 2 = (5500000000000000000 :: int)"
    by (simp add: sdiv_2_nonneg)
  show "state_ok state_int8_large"
    by (simp add: state_ok_def array_ok_def state_int8_large_def MaxAllocSize_def)
  show "contents (sort_values pg_int8 state_int8_large)
        = map Int64GetDatum [1, 5000000000000000000, 6000000000000000000, 7000000000000000000]"
    by code_simp
  show "median_finalfn pg_int8 (Some state_int8_large)
        = Some (Int64GetDatum (- 3723372036854775808))"
    by code_simp
qed

section \<open>The final result and the statistical median of integers\<close>

lemma map_sort_by:
  assumes tot: "total_order_cmp A cmp" and inA: "set S \<subseteq> A"
    and ord: "\<And>a b. cmp a b \<le> 0 \<longleftrightarrow> f a \<le> f b"
  shows "map f (sort_by cmp S) = sort (map f S)"
proof -
  have s: "sorted (map f (sort_by cmp S))"
    using sorted_sort_by [OF tot inA] by (simp add: sorted_by_def sorted_map ord)
  have m: "mset (map f (sort_by cmp S)) = mset (map f S)"
    by (simp add: mset_sort_by)
  show ?thesis
    using properties_for_sort [OF m s] by simp
qed

lemma reference_median_statistical:
  assumes tot: "total_order_cmp A cmp" and inA: "set S \<subseteq> A" and ne: "S \<noteq> []"
    and ord: "\<And>a b. cmp a b \<le> 0 \<longleftrightarrow> f a \<le> f b"
    and avg: "even (length S) \<Longrightarrow>
       f (average (sort_by cmp S ! (length S div 2 - 1)) (sort_by cmp S ! (length S div 2)))
         = (f (sort_by cmp S ! (length S div 2 - 1)) + f (sort_by cmp S ! (length S div 2))) sdiv 2"
  shows "f (reference_median cmp average S) = statistical_median (map f S)"
proof -
  let ?T = "sort_by cmp S"
  have m: "sort (map f S) = map f ?T"
    using map_sort_by [OF tot inA ord] by simp
  have len: "length ?T = length S"
    using size_mset [of ?T] by (simp add: mset_sort_by)
  have pos: "0 < length S" using ne by simp
  then have i: "length S div 2 < length ?T" "length S div 2 - 1 < length ?T"
    by (auto simp: len intro: less_imp_diff_less)
  show ?thesis
  proof (cases "odd (length S)")
    case True
    then show ?thesis
      using i by (simp add: reference_median_def statistical_median_def Let_def m len)
  next
    case False
    then have e: "even (length S)" by simp
    show ?thesis
      using i e avg [OF e]
      by (simp add: reference_median_def statistical_median_def Let_def m len)
  qed
qed

text \<open>
  For \<open>int8\<close>: the transition function called on each value of a non-empty sequence
  \<open>S\<close>, starting without a state, yields a state whose final result is the statistical
  median of the integers of \<open>S\<close>, provided that for an even number of values the sum
  of the two middle ones is within the 64 bits of the type.
\<close>

lemma median_finalfn_int8_statistical_median:
  assumes ne: "S \<noteq> []" and len: "length S < 2 ^ 31"
    and fits: "even (length S) \<Longrightarrow>
       - (2 ^ 63) \<le> sort (map DatumGetInt64 S) ! (length S div 2 - 1)
                      + sort (map DatumGetInt64 S) ! (length S div 2)
       \<and> sort (map DatumGetInt64 S) ! (length S div 2 - 1)
           + sort (map DatumGetInt64 S) ! (length S div 2) < 2 ^ 63"
  shows "\<exists>s. run_transfn pg_int8 None (map Some S) = Inr (Some s)
            \<and> map_option DatumGetInt64 (median_finalfn pg_int8 (Some s))
                = Some (statistical_median (map DatumGetInt64 S))"
proof -
  let ?cmp = "datum_qsort_compare pg_int8 te_int8"
  let ?T = "sort_by ?cmp S"
  note tot = total_order_cmp_int8 [of te_int8]
  have ord: "?cmp a b \<le> 0 \<longleftrightarrow> DatumGetInt64 a \<le> DatumGetInt64 b" for a b
    by (auto simp: cmp_int8 DatumGetInt64_def word_eq_iff_signed [where ?'a = int])
  have inA: "set S \<subseteq> UNIV" by simp
  have m: "sort (map DatumGetInt64 S) = map DatumGetInt64 ?T"
    using map_sort_by [OF tot inA ord] by simp
  have lT: "length ?T = length S"
    using size_mset [of ?T] by (simp add: mset_sort_by)
  have avg: "DatumGetInt64 (calculate_average pg_int8 INT8OID
                 (?T ! (length S div 2 - 1)) (?T ! (length S div 2)))
         = (DatumGetInt64 (?T ! (length S div 2 - 1)) + DatumGetInt64 (?T ! (length S div 2))) sdiv 2"
    if e: "even (length S)"
  proof -
    have pos: "0 < length S" using ne by simp
    then have i: "length S div 2 < length ?T" "length S div 2 - 1 < length ?T"
      by (auto simp: lT intro: less_imp_diff_less)
    have "- (2 ^ 63) \<le> DatumGetInt64 (?T ! (length S div 2 - 1))
                          + DatumGetInt64 (?T ! (length S div 2))
       \<and> DatumGetInt64 (?T ! (length S div 2 - 1)) + DatumGetInt64 (?T ! (length S div 2))
           < 2 ^ 63"
      using fits [OF e] i by (simp add: m)
    then show ?thesis
      using calculate_average_by_type [where pg = pg_int8
          and left = "?T ! (length S div 2 - 1)" and right = "?T ! (length S div 2)"]
      by blast
  qed
  have r: "DatumGetInt64 (reference_median ?cmp (calculate_average pg_int8 INT8OID) S)
             = statistical_median (map DatumGetInt64 S)"
    using tot inA ne ord avg by (rule reference_median_statistical)
  have h: "init_median_state pg_int8 = Inr state_init_int8 \<and> typentry state_init_int8 = te_int8
      \<and> S \<noteq> [] \<and> length S < 2 ^ 31 \<and> set S \<subseteq> UNIV"
    using ne len by (simp add: init_int8) (simp add: state_init_int8_def)
  have t: "inputTypeId state_init_int8 = INT8OID" by (simp add: state_init_int8_def)
  from median_finalfn_sorts_and_indexes [OF tot qsort_arg_sorts_int8, THEN conjunct2,
      rule_format, OF h, unfolded t]
  obtain s where s: "run_transfn pg_int8 None (map Some S) = Inr (Some s)"
    "median_finalfn pg_int8 (Some s)
       = Some (reference_median ?cmp (calculate_average pg_int8 INT8OID) S)"
    by blast
  show ?thesis
    using s r by auto
qed

text \<open>
  The same for \<open>int4\<close>, whose values are the Datums of the 32-bit integers: the sum
  of the two middle values has to be within 32 bits.
\<close>

lemma init_int4: "init_median_state pg_int4 = Inr state_init_int4"
  by code_simp

lemma median_finalfn_int4_statistical_median:
  assumes ne: "S \<noteq> []" and len: "length S < 2 ^ 31" and inA: "set S \<subseteq> int4_Datums"
    and fits: "even (length S) \<Longrightarrow>
       - (2 ^ 31) \<le> sort (map DatumGetInt32 S) ! (length S div 2 - 1)
                      + sort (map DatumGetInt32 S) ! (length S div 2)
       \<and> sort (map DatumGetInt32 S) ! (length S div 2 - 1)
           + sort (map DatumGetInt32 S) ! (length S div 2) < 2 ^ 31"
  shows "\<exists>s. run_transfn pg_int4 None (map Some S) = Inr (Some s)
            \<and> map_option DatumGetInt32 (median_finalfn pg_int4 (Some s))
                = Some (statistical_median (map DatumGetInt32 S))"
proof -
  let ?cmp = "datum_qsort_compare pg_int4 te_int4"
  let ?T = "sort_by ?cmp S"
  note tot = total_order_cmp_int4 [of te_int4]
  have ord: "?cmp a b \<le> 0 \<longleftrightarrow> DatumGetInt32 a \<le> DatumGetInt32 b" for a b
    by (auto simp: cmp_int4)
  have m: "sort (map DatumGetInt32 S) = map DatumGetInt32 ?T"
    using map_sort_by [OF tot inA ord] by simp
  have lT: "length ?T = length S"
    using size_mset [of ?T] by (simp add: mset_sort_by)
  have avg: "DatumGetInt32 (calculate_average pg_int4 INT4OID
                 (?T ! (length S div 2 - 1)) (?T ! (length S div 2)))
         = (DatumGetInt32 (?T ! (length S div 2 - 1)) + DatumGetInt32 (?T ! (length S div 2))) sdiv 2"
    if e: "even (length S)"
  proof -
    have pos: "0 < length S" using ne by simp
    then have i: "length S div 2 < length ?T" "length S div 2 - 1 < length ?T"
      by (auto simp: lT intro: less_imp_diff_less)
    have "- (2 ^ 31) \<le> DatumGetInt32 (?T ! (length S div 2 - 1))
                          + DatumGetInt32 (?T ! (length S div 2))
       \<and> DatumGetInt32 (?T ! (length S div 2 - 1)) + DatumGetInt32 (?T ! (length S div 2))
           < 2 ^ 31"
      using fits [OF e] i by (simp add: m)
    then show ?thesis
      using calculate_average_by_type [where pg = pg_int4
          and left = "?T ! (length S div 2 - 1)" and right = "?T ! (length S div 2)"]
      by blast
  qed
  have r: "DatumGetInt32 (reference_median ?cmp (calculate_average pg_int4 INT4OID) S)
             = statistical_median (map DatumGetInt32 S)"
    using tot inA ne ord avg by (rule reference_median_statistical)
  have h: "init_median_state pg_int4 = Inr state_init_int4 \<and> typentry state_init_int4 = te_int4
      \<and> S \<noteq> [] \<and> length S < 2 ^ 31 \<and> set S \<subseteq> int4_Datums"
    using ne len inA by (simp add: init_int4) (simp add: state_init_int4_def)
  have t: "inputTypeId state_init_int4 = INT4OID" by (simp add: state_init_int4_def)
  from median_finalfn_sorts_and_indexes [OF tot qsort_arg_sorts_int4, THEN conjunct2,
      rule_format, OF h, unfolded t]
  obtain s where s: "run_transfn pg_int4 None (map Some S) = Inr (Some s)"
    "median_finalfn pg_int4 (Some s)
       = Some (reference_median ?cmp (calculate_average pg_int4 INT4OID) S)"
    by blast
  show ?thesis
    using s r by auto
qed

text \<open>At the \<open>int8\<close> values 4, -3, 2, 1 the median is 1, the truncated half of 3; at the
  \<open>int4\<close> values 9, -4, -1 it is -1.\<close>

lemma median_finalfn_statistical_median_examples:
  "(\<exists>s. run_transfn pg_int8 None (map Some (map Int64GetDatum [4, - 3, 2, 1])) = Inr (Some s)
        \<and> map_option DatumGetInt64 (median_finalfn pg_int8 (Some s)) = Some 1)
   \<and> (\<exists>s. run_transfn pg_int4 None (map Some (map Int32GetDatum [9, - 4, - 1])) = Inr (Some s)
        \<and> map_option DatumGetInt32 (median_finalfn pg_int4 (Some s)) = Some (- 1))"
proof -
  let ?S = "map Int64GetDatum [4, - 3, 2, 1]"
  let ?R = "map Int32GetDatum [9, - 4, - 1]"
  have v: "map DatumGetInt64 ?S = [4, - 3, 2, 1]" "map DatumGetInt32 ?R = [9, - 4, - 1]"
    by (simp_all add: DatumGetInt64_Int64GetDatum DatumGetInt32_Int32GetDatum to_int64_def
        to_int32_def)
  have m: "statistical_median [4, - 3, 2, 1] = 1" "statistical_median [9, - 4, - 1] = - 1"
    by (simp_all add: statistical_median_def sdiv_2_nonneg)
  have s: "sort [4, - 3, 2, 1 :: int] = [- 3, 1, 2, 4]" "sort [9, - 4, - 1 :: int] = [- 4, - 1, 9]"
    by simp_all
  have a: "\<exists>s. run_transfn pg_int8 None (map Some ?S) = Inr (Some s)
            \<and> map_option DatumGetInt64 (median_finalfn pg_int8 (Some s))
                = Some (statistical_median (map DatumGetInt64 ?S))"
  proof (rule median_finalfn_int8_statistical_median)
    show "?S \<noteq> []" by simp
    show "length ?S < 2 ^ 31" by simp
    show "- (2 ^ 63) \<le> sort (map DatumGetInt64 ?S) ! (length ?S div 2 - 1)
                      + sort (map DatumGetInt64 ?S) ! (length ?S div 2)
       \<and> sort (map DatumGetInt64 ?S) ! (length ?S div 2 - 1)
           + sort (map DatumGetInt64 ?S) ! (length ?S div 2) < 2 ^ 63"
      unfolding v s by simp
  qed
  have b: "\<exists>s. run_transfn pg_int4 None (map Some ?R) = Inr (Some s)
            \<and> map_option DatumGetInt32 (median_finalfn pg_int4 (Some s))
                = Some (statistical_median (map DatumGetInt32 ?R))"
  proof (rule median_finalfn_int4_statistical_median)
    show "?R \<noteq> []" by simp
    show "length ?R < 2 ^ 31" by simp
    show "set ?R \<subseteq> int4_Datums" by (simp add: int4_Datums_def)
    show "- (2 ^ 31) \<le> sort (map DatumGetInt32 ?R) ! (length ?R div 2 - 1)
                      + sort (map DatumGetInt32 ?R) ! (length ?R div 2)
       \<and> sort (map DatumGetInt32 ?R) ! (length ?R div 2 - 1)
           + sort (map DatumGetInt32 ?R) ! (length ?R div 2) < 2 ^ 31"
      unfolding v s by simp
  qed
  from a [unfolded v m] b [unfolded v m] show ?thesis
    by (rule conjI)
qed

section \<open>Bytes of integers\<close>

lemma length_le_bytes [simp]: "length (le_bytes n k) = n"
  by (induction n arbitrary: k) auto

lemma le_nat_le_bytes: "le_nat (le_bytes n k) = k mod 256 ^ n"
proof (induction n arbitrary: k)
  case 0
  then show ?case by simp
next
  case (Suc n)
  have "unat (of_nat (k mod 256) :: byte) = k mod 256"
    by (simp add: unat_of_nat)
  then show ?case
    by (simp add: Suc mod_mult2_eq)
qed

lemma length_bytes_of [simp]:
  "length (bytes_of_Oid t) = 4" "length (bytes_of_int64 c) = 8"
  "length (bytes_of_int32 c) = 4" "length (bytes_of_Datum d) = 8"
  by (simp_all add: bytes_of_Oid_def bytes_of_int64_def bytes_of_int32_def bytes_of_Datum_def)

lemma Datum_of_bytes_of_Datum [simp]: "Datum_of_bytes (bytes_of_Datum d) = d"
proof -
  have "unat d < 2 ^ 64" using unsigned_less [of d] by simp
  then have "unat d mod 256 ^ 8 = unat d" by simp
  then show ?thesis
    by (simp add: Datum_of_bytes_def bytes_of_Datum_def le_nat_le_bytes)
qed

lemma Oid_of_bytes_of_Oid [simp]: "Oid_of_bytes (bytes_of_Oid t) = t"
proof -
  have "unat t < 2 ^ 32" using unsigned_less [of t] by simp
  then have "unat t mod 256 ^ 4 = unat t" by simp
  then show ?thesis
    by (simp add: Oid_of_bytes_def bytes_of_Oid_def le_nat_le_bytes)
qed

lemma int64_of_bytes_of_int64: "int64_of_bytes (bytes_of_int64 x) = to_int64 x"
proof -
  have "int (nat (x mod 2 ^ 64) mod 256 ^ 8) = take_bit 64 x"
    by (simp add: zmod_int take_bit_eq_mod)
  then show ?thesis
    by (simp add: int64_of_bytes_def bytes_of_int64_def le_nat_le_bytes to_int64_def
        signed_take_bit_take_bit)
qed

lemma int32_of_bytes_of_int32: "int32_of_bytes (bytes_of_int32 x) = to_int32 x"
proof -
  have "int (nat (x mod 2 ^ 32) mod 256 ^ 4) = take_bit 32 x"
    by (simp add: zmod_int take_bit_eq_mod)
  then show ?thesis
    by (simp add: int32_of_bytes_def bytes_of_int32_def le_nat_le_bytes to_int32_def
        signed_take_bit_take_bit)
qed

section \<open>The layout that the serialization writes\<close>

lemma serialize_loop_end:
  "\<not> int i < count s \<Longrightarrow> serialize_loop typbyval is_varlena mem s i buf = buf"
  by (subst serialize_loop.simps) simp

lemma serialize_loop_step:
  assumes "int i < count s"
    and "is_varlena \<Longrightarrow> int (length (mem (values_arr s ! i))) < 2 ^ 31"
  shows "serialize_loop typbyval is_varlena mem s i buf
           = serialize_loop typbyval is_varlena mem s (Suc i)
               (buf @ datum_record is_varlena mem (values_arr s ! i))"
proof -
  have dl: "is_varlena \<Longrightarrow> to_int32 (int (length (mem (values_arr s ! i))))
              = int (length (mem (values_arr s ! i)))"
    using assms(2) by (intro to_int32_id) auto
  show ?thesis
    using assms(1) dl
    by (subst serialize_loop.simps) (auto simp: datum_record_def Let_def)
qed

lemma serialize_loop_records:
  assumes len: "nat (count s) \<le> length (values_arr s)"
    and obj: "is_varlena \<Longrightarrow> \<forall>v \<in> set (contents s). int (length (mem v)) < 2 ^ 31"
  shows "serialize_loop typbyval is_varlena mem s i buf
           = buf @ concat (map (datum_record is_varlena mem) (drop i (contents s)))"
proof (induction "length (contents s) - i" arbitrary: i buf)
  case 0
  have lc: "length (contents s) = nat (count s)"
    using len by (simp add: contents_def)
  with 0 have "\<not> int i < count s" "drop i (contents s) = []" by auto
  then show ?case by (simp add: serialize_loop_end)
next
  case (Suc k)
  have lc: "length (contents s) = nat (count s)"
    using len by (simp add: contents_def)
  from Suc.hyps(2) have i: "i < length (contents s)" by simp
  then have lt: "int i < count s" using lc by simp
  have nth: "contents s ! i = values_arr s ! i"
    using i by (simp add: contents_def)
  have dr: "drop i (contents s) = values_arr s ! i # drop (Suc i) (contents s)"
    using Cons_nth_drop_Suc [OF i] nth by simp
  have ob: "is_varlena \<Longrightarrow> int (length (mem (values_arr s ! i))) < 2 ^ 31"
    using obj i nth by (metis nth_mem)
  have st: "serialize_loop typbyval is_varlena mem s i buf
           = serialize_loop typbyval is_varlena mem s (Suc i)
               (buf @ datum_record is_varlena mem (values_arr s ! i))"
    using lt ob by (rule serialize_loop_step)
  have k: "k = length (contents s) - Suc i" using Suc.hyps(2) by simp
  show ?case
    by (simp add: st Suc.hyps(1) [OF k] dr)
qed

lemma serialize_median_state_layout:
  assumes ok: "state_ok s" and agg: "AggCheckCallContext pg"
    and ti: "get_typlenbyvalalign pg (inputTypeId s) = (typlen, typbyval)"
    and vl: "is_varlena = (typlen = -1 \<or> typlen = -2)"
    and obj: "is_varlena \<Longrightarrow> \<forall>v \<in> set (contents s). int (length (mem v)) \<le> MaxAllocSize"
  shows "serialize_median_state pg mem (Some s)
           = Inr (Some (bytes_of_Oid (inputTypeId s) @ bytes_of_int64 (count s)
                        @ bytes_of_int64 (allocated s)
                        @ concat (map (datum_record is_varlena mem) (contents s))))"
proof -
  have len: "nat (count s) \<le> length (values_arr s)"
    using state_ok_bounds [OF ok] by simp
  have obj': "is_varlena \<Longrightarrow> \<forall>v \<in> set (contents s). int (length (mem v)) < 2 ^ 31"
    using obj by (auto simp: MaxAllocSize_def)
  show ?thesis
    using agg serialize_loop_records [OF len obj', where typbyval = typbyval and i = 0]
    by (simp add: serialize_median_state_def ti vl)
qed

section \<open>Reading the records back\<close>

lemma read_bytes_at:
  "p = length pre \<Longrightarrow> n = length bs \<Longrightarrow> read_bytes (pre @ bs @ rest) p n = Inr bs"
  by (simp add: read_bytes_def)

lemma read_bytes_past:
  "length bytes < p + n \<Longrightarrow> read_bytes bytes p n = Inl OutOfBoundsRead"
  by (simp add: read_bytes_def)

lemma length_datum_record:
  "length (datum_record is_varlena mem v)
     = (if v = 0 then 1 else if is_varlena then 5 + length (mem v) else 9)"
  by (simp add: datum_record_def)

lemma deserialize_datum_null:
  assumes "bytes = pre @ [1] @ rest" "p = length pre" "i < length vals"
  shows "deserialize_datum typbyval is_varlena bytes i (p, vals, addrs, m2)
           = Inr (p + 1, vals[i := 0], addrs, m2)"
proof -
  have "read_bytes bytes p 1 = Inr [1]"
    using assms(1,2) read_bytes_at [of p pre 1 "[1]" rest] by simp
  then show ?thesis
    using assms(3) by (simp add: deserialize_datum_def store_value_def)
qed

lemma deserialize_datum_fixed:
  assumes "bytes = pre @ [0] @ bytes_of_Datum v @ rest" "p = length pre" "i < length vals"
    and "\<not> is_varlena"
  shows "deserialize_datum typbyval is_varlena bytes i (p, vals, addrs, m2)
           = Inr (p + 9, vals[i := v], addrs, m2)"
proof -
  have r1: "read_bytes bytes p 1 = Inr [0]"
    using assms(1,2) read_bytes_at [of p pre 1 "[0]" "bytes_of_Datum v @ rest"] by simp
  have "read_bytes ((pre @ [0]) @ bytes_of_Datum v @ rest) (p + 1) 8 = Inr (bytes_of_Datum v)"
    using assms(2) by (intro read_bytes_at) simp_all
  then have r2: "read_bytes bytes (p + 1) 8 = Inr (bytes_of_Datum v)"
    using assms(1) by simp
  show ?thesis
    using assms(3,4) r1 r2 by (simp add: deserialize_datum_def store_value_def)
qed

lemma deserialize_datum_varlena:
  assumes "bytes = pre @ [0] @ bytes_of_int32 (int (length obj)) @ obj @ rest"
    and "p = length pre" "i < length vals" "is_varlena"
    and "int (length obj) \<le> MaxAllocSize"
  shows "deserialize_datum typbyval is_varlena bytes i (p, vals, a # addrs, m2)
           = Inr (p + 5 + length obj, vals[i := a], addrs, m2(a := obj))"
proof -
  let ?lb = "bytes_of_int32 (int (length obj))"
  have r1: "read_bytes bytes p 1 = Inr [0]"
    using assms(1,2) read_bytes_at [of p pre 1 "[0]" "?lb @ obj @ rest"] by simp
  have "read_bytes ((pre @ [0]) @ ?lb @ obj @ rest) (p + 1) 4 = Inr ?lb"
    using assms(2) by (intro read_bytes_at) simp_all
  then have r2: "read_bytes bytes (p + 1) 4 = Inr ?lb"
    using assms(1) by simp
  have dl: "int32_of_bytes ?lb = int (length obj)"
    using assms(5) by (simp add: int32_of_bytes_of_int32 to_int32_id MaxAllocSize_def)
  have "read_bytes ((pre @ [0] @ ?lb) @ obj @ rest) (p + 1 + 4) (length obj) = Inr obj"
    using assms(2) by (intro read_bytes_at) simp_all
  then have r3: "read_bytes bytes (p + 1 + 4) (length obj) = Inr obj"
    using assms(1) by simp
  have v: "AllocSizeIsValid (int (length obj))"
    using assms(5) by (simp add: AllocSizeIsValid_def)
  show ?thesis
    using assms(3,4) r1 r2 r3
    by (simp add: deserialize_datum_def store_value_def dl v Let_def)
qed

text \<open>The three cases as one: after the record of \<open>v\<close> the offset is behind the record,
  slot \<open>i\<close> holds the Datum read, and for a variable-length value the next address is
  taken and holds the object.\<close>

lemma deserialize_datum_record:
  assumes b: "bytes = pre @ datum_record is_varlena mem v @ rest"
    and p: "p = length pre" and i: "i < length vals"
    and vl: "is_varlena \<and> v \<noteq> 0 \<longrightarrow> int (length (mem v)) \<le> MaxAllocSize \<and> addrs \<noteq> []"
  shows "deserialize_datum typbyval is_varlena bytes i (p, vals, addrs, m2)
           = Inr (p + length (datum_record is_varlena mem v),
                  vals[i := (if v = 0 then 0 else if is_varlena then hd addrs else v)],
                  (if is_varlena \<and> v \<noteq> 0 then tl addrs else addrs),
                  (if is_varlena \<and> v \<noteq> 0 then m2(hd addrs := mem v) else m2))"
proof (cases "v = 0")
  case True
  then show ?thesis
    using deserialize_datum_null [of bytes pre rest p i vals] b p i
    by (simp add: datum_record_def)
next
  case nz: False
  show ?thesis
  proof (cases is_varlena)
    case False
    then show ?thesis
      using deserialize_datum_fixed [of bytes pre v rest p i vals] b p i nz
      by (simp add: datum_record_def)
  next
    case True
    with vl nz obtain a addrs' where a: "addrs = a # addrs'"
      by (cases addrs) auto
    show ?thesis
      using deserialize_datum_varlena [of bytes pre "mem v" rest p i vals is_varlena] b p i nz
        True vl
      by (simp add: datum_record_def a)
  qed
qed

lemma deserialize_loop_end:
  "\<not> int i < cnt \<Longrightarrow> deserialize_loop typbyval is_varlena bytes cnt i st = Inr st"
  by (subst deserialize_loop.simps) simp

lemma deserialize_loop_step:
  "int i < cnt \<Longrightarrow>
     deserialize_loop typbyval is_varlena bytes cnt i st
       = (case deserialize_datum typbyval is_varlena bytes i st of
            Inl e \<Rightarrow> Inl e
          | Inr st' \<Rightarrow> deserialize_loop typbyval is_varlena bytes cnt (Suc i) st')"
  by (subst deserialize_loop.simps) simp

lemma varlena_ok_head:
  assumes "varlena_ok is_varlena mem addrs (v # vs)"
  shows "is_varlena \<and> v \<noteq> 0 \<longrightarrow> int (length (mem v)) \<le> MaxAllocSize \<and> addrs \<noteq> []"
    and "varlena_ok is_varlena mem (if is_varlena \<and> v \<noteq> 0 then tl addrs else addrs) vs"
  using assms by (cases addrs; auto simp: varlena_ok_def)+

lemma deserialize_loop_records:
  assumes "cnt = int (length cs)" "length cs \<le> length vals"
    and "varlena_ok is_varlena mem addrs (drop i cs)"
    and "bytes = pre @ concat (map (datum_record is_varlena mem) (drop i cs)) @ rest"
    and "p = length pre"
  shows "\<exists>vals' addrs' m'.
           deserialize_loop typbyval is_varlena bytes cnt i (p, vals, addrs, m2)
             = Inr (p + length (concat (map (datum_record is_varlena mem) (drop i cs))),
                    vals', addrs', m')
           \<and> length vals' = length vals
           \<and> (\<forall>j<i. vals' ! j = vals ! j)
           \<and> (\<forall>a. a \<notin> set addrs \<longrightarrow> m' a = m2 a)
           \<and> (\<forall>j. i \<le> j \<and> j < length cs \<longrightarrow>
                  same_representation is_varlena mem (cs ! j) m' (vals' ! j))"
  using assms
proof (induction "length cs - i" arbitrary: i pre p vals addrs m2)
  case 0
  then have "\<not> int i < cnt" "drop i cs = []" by auto
  then show ?case by (auto simp: deserialize_loop_end)
next
  case (Suc k)
  let ?rec = "datum_record is_varlena mem"
  from Suc.hyps(2) have i: "i < length cs" by simp
  then have lt: "int i < cnt" using Suc.prems(1) by simp
  define v where "v = cs ! i"
  have dr: "drop i cs = v # drop (Suc i) cs"
    using Cons_nth_drop_Suc [OF i] by (simp add: v_def)
  define take_addr where "take_addr \<longleftrightarrow> is_varlena \<and> v \<noteq> 0"
  define v' where "v' = (if v = 0 then 0 else if is_varlena then hd addrs else v)"
  define addrs1 where "addrs1 = (if take_addr then tl addrs else addrs)"
  define m1 where "m1 = (if take_addr then m2(hd addrs := mem v) else m2)"
  define vals1 where "vals1 = vals[i := v']"
  define pre1 where "pre1 = pre @ ?rec v"
  have vo: "varlena_ok is_varlena mem addrs (v # drop (Suc i) cs)"
    using Suc.prems(3) dr by simp
  note vh = varlena_ok_head [OF vo]
  have iv: "i < length vals" using i Suc.prems(2) by simp
  have b: "bytes = pre @ ?rec v @ (concat (map ?rec (drop (Suc i) cs)) @ rest)"
    using Suc.prems(4) dr by simp
  have step: "deserialize_datum typbyval is_varlena bytes i (p, vals, addrs, m2)
                = Inr (length pre1, vals1, addrs1, m1)"
    using deserialize_datum_record [OF b Suc.prems(5) iv vh(1), of typbyval m2] Suc.prems(5)
    by (simp add: pre1_def vals1_def addrs1_def m1_def v'_def take_addr_def)
  have k: "k = length cs - Suc i" using Suc.hyps(2) by simp
  have l1: "length cs \<le> length vals1" using Suc.prems(2) by (simp add: vals1_def)
  have vo1: "varlena_ok is_varlena mem addrs1 (drop (Suc i) cs)"
    using vh(2) by (simp add: addrs1_def take_addr_def)
  have b1: "bytes = pre1 @ concat (map ?rec (drop (Suc i) cs)) @ rest"
    using b by (simp add: pre1_def)
  from Suc.hyps(1) [OF k Suc.prems(1) l1 vo1 b1 refl, of m1]
  obtain vals' addrs' m' where
    r: "deserialize_loop typbyval is_varlena bytes cnt (Suc i) (length pre1, vals1, addrs1, m1)
          = Inr (length pre1 + length (concat (map ?rec (drop (Suc i) cs))), vals', addrs', m')"
    and len: "length vals' = length vals1"
    and old: "\<forall>j<Suc i. vals' ! j = vals1 ! j"
    and mm: "\<forall>a. a \<notin> set addrs1 \<longrightarrow> m' a = m1 a"
    and rep: "\<forall>j. Suc i \<le> j \<and> j < length cs \<longrightarrow>
                 same_representation is_varlena mem (cs ! j) m' (vals' ! j)"
    by blast
  have sub: "set addrs1 \<subseteq> set addrs"
    by (cases addrs) (auto simp: addrs1_def)
  have ne: "take_addr \<Longrightarrow> addrs \<noteq> [] \<and> distinct addrs \<and> 0 \<notin> set addrs"
    using vo vh(1) by (auto simp: take_addr_def varlena_ok_def)
  have hd_in: "take_addr \<Longrightarrow> hd addrs \<in> set addrs \<and> hd addrs \<notin> set addrs1 \<and> hd addrs \<noteq> 0"
  proof -
    assume t: take_addr
    with ne obtain a as where a: "addrs = a # as" by (cases addrs) auto
    with ne [OF t] t show ?thesis by (auto simp: addrs1_def)
  qed
  have 1: "deserialize_loop typbyval is_varlena bytes cnt i (p, vals, addrs, m2)
             = Inr (p + length (concat (map ?rec (drop i cs))), vals', addrs', m')"
  proof -
    have "deserialize_loop typbyval is_varlena bytes cnt i (p, vals, addrs, m2)
            = deserialize_loop typbyval is_varlena bytes cnt (Suc i)
                (length pre1, vals1, addrs1, m1)"
      by (simp only: deserialize_loop_step [OF lt] step sum.case)
    also note r
    finally show ?thesis
      using Suc.prems(5) by (simp add: dr pre1_def)
  qed
  have 2: "length vals' = length vals" using len by (simp add: vals1_def)
  have 3: "\<forall>j<i. vals' ! j = vals ! j"
    using old by (simp add: vals1_def)
  have 4: "\<forall>a. a \<notin> set addrs \<longrightarrow> m' a = m2 a"
  proof (intro allI impI)
    fix a assume a: "a \<notin> set addrs"
    then have "m' a = m1 a" using mm sub by blast
    moreover have "m1 a = m2 a"
      using a hd_in by (auto simp: m1_def)
    ultimately show "m' a = m2 a" by simp
  qed
  have vi: "vals' ! i = v'"
    using old iv by (simp add: vals1_def)
  have 5: "same_representation is_varlena mem (cs ! i) m' (vals' ! i)"
  proof (cases take_addr)
    case True
    then have "m' (hd addrs) = m1 (hd addrs)" using mm hd_in by blast
    then have "m' (hd addrs) = mem v" using True by (simp add: m1_def)
    with True hd_in show ?thesis
      by (simp add: same_representation_def vi v'_def take_addr_def flip: v_def)
  next
    case False
    then show ?thesis
      by (auto simp: same_representation_def vi v'_def take_addr_def simp flip: v_def)
  qed
  have 6: "\<forall>j. i \<le> j \<and> j < length cs \<longrightarrow>
                  same_representation is_varlena mem (cs ! j) m' (vals' ! j)"
  proof (intro allI impI)
    fix j assume j: "i \<le> j \<and> j < length cs"
    show "same_representation is_varlena mem (cs ! j) m' (vals' ! j)"
    proof (cases "j = i")
      case True
      then show ?thesis using 5 by simp
    next
      case False
      with j rep show ?thesis by simp
    qed
  qed
  from 1 2 3 4 6 show ?case by blast
qed

section \<open>Reading records that are cut short\<close>

lemma deserialize_datum_truncated:
  assumes b: "bytes = pre @ take k (datum_record is_varlena mem v)"
    and k: "k < length (datum_record is_varlena mem v)"
    and p: "p = length pre" and i: "i < length vals"
    and vl: "is_varlena \<and> v \<noteq> 0 \<longrightarrow> int (length (mem v)) \<le> MaxAllocSize \<and> addrs \<noteq> []"
  shows "deserialize_datum typbyval is_varlena bytes i (p, vals, addrs, m2) = Inl OutOfBoundsRead"
proof (cases k)
  case 0
  then have "read_bytes bytes p 1 = Inl OutOfBoundsRead"
    using b p by (simp add: read_bytes_def)
  then show ?thesis
    by (simp add: deserialize_datum_def)
next
  case (Suc k')
  with k have nz: "v \<noteq> 0" by (auto simp: datum_record_def split: if_splits)
  show ?thesis
  proof (cases is_varlena)
    case False
    have bb: "bytes = pre @ [0] @ take k' (bytes_of_Datum v)"
      using b Suc nz False by (simp add: datum_record_def)
    have k8: "k' < 8" using k Suc nz False by (simp add: datum_record_def)
    have r1: "read_bytes bytes p 1 = Inr [0]"
      using bb p read_bytes_at [of p pre 1 "[0]" "take k' (bytes_of_Datum v)"] by simp
    have r2: "read_bytes bytes (p + 1) 8 = Inl OutOfBoundsRead"
      using bb p k8 by (intro read_bytes_past) simp
    show ?thesis
      using False r1 r2 by (simp add: deserialize_datum_def)
  next
    case True
    let ?lb = "bytes_of_int32 (int (length (mem v)))"
    have bb: "bytes = pre @ [0] @ take k' (?lb @ mem v)"
      using b Suc nz True by (simp add: datum_record_def)
    have kk: "k' < 4 + length (mem v)" using k Suc nz True by (simp add: datum_record_def)
    have r1: "read_bytes bytes p 1 = Inr [0]"
      using bb p read_bytes_at [of p pre 1 "[0]" "take k' (?lb @ mem v)"] by simp
    show ?thesis
    proof (cases "k' < 4")
      case True
      have r2: "read_bytes bytes (p + 1) 4 = Inl OutOfBoundsRead"
        using bb p True by (intro read_bytes_past) simp
      show ?thesis
        using \<open>is_varlena\<close> r1 r2 by (simp add: deserialize_datum_def)
    next
      case False
      then have bb': "bytes = (pre @ [0]) @ ?lb @ take (k' - 4) (mem v)"
        using bb by simp
      have r2: "read_bytes bytes (p + 1) 4 = Inr ?lb"
        unfolding bb' using p by (intro read_bytes_at) simp_all
      have dl: "int32_of_bytes ?lb = int (length (mem v))"
        using vl True nz \<open>is_varlena\<close>
        by (simp add: int32_of_bytes_of_int32 to_int32_id MaxAllocSize_def)
      have va: "AllocSizeIsValid (int (length (mem v)))"
        using vl nz \<open>is_varlena\<close> by (simp add: AllocSizeIsValid_def)
      from vl nz \<open>is_varlena\<close> obtain a as where a: "addrs = a # as"
        by (cases addrs) auto
      have r3: "read_bytes bytes (p + 1 + 4) (length (mem v)) = Inl OutOfBoundsRead"
        using bb p kk False by (intro read_bytes_past) simp
      show ?thesis
        using \<open>is_varlena\<close> r1 r2 r3
        by (simp add: deserialize_datum_def dl va a Let_def)
    qed
  qed
qed

lemma deserialize_loop_truncated:
  assumes "cnt = int (length cs)" "length cs \<le> length vals"
    and "varlena_ok is_varlena mem addrs (drop i cs)"
    and "bytes = take m (pre @ concat (map (datum_record is_varlena mem) (drop i cs)))"
    and "length pre \<le> m"
    and "m < length pre + length (concat (map (datum_record is_varlena mem) (drop i cs)))"
    and "p = length pre"
  shows "deserialize_loop typbyval is_varlena bytes cnt i (p, vals, addrs, m2)
           = Inl OutOfBoundsRead"
  using assms
proof (induction "length cs - i" arbitrary: i pre p vals addrs m2)
  case 0
  then have "drop i cs = []" by simp
  with "0.prems"(5,6) show ?case by simp
next
  case (Suc k)
  let ?rec = "datum_record is_varlena mem"
  from Suc.hyps(2) have i: "i < length cs" by simp
  then have lt: "int i < cnt" using Suc.prems(1) by simp
  define v where "v = cs ! i"
  have dr: "drop i cs = v # drop (Suc i) cs"
    using Cons_nth_drop_Suc [OF i] by (simp add: v_def)
  define restc where "restc = concat (map ?rec (drop (Suc i) cs))"
  have vo: "varlena_ok is_varlena mem addrs (v # drop (Suc i) cs)"
    using Suc.prems(3) dr by simp
  note vh = varlena_ok_head [OF vo]
  have iv: "i < length vals" using i Suc.prems(2) by simp
  define k0 where "k0 = m - length pre"
  have b: "bytes = pre @ take k0 (?rec v @ restc)"
    using Suc.prems(4,5) by (simp add: dr restc_def k0_def)
  have m: "k0 < length (?rec v) + length restc"
    using Suc.prems(5,6) by (simp add: dr restc_def k0_def)
  show ?case
  proof (cases "k0 < length (?rec v)")
    case True
    then have "bytes = pre @ take k0 (?rec v)" using b by simp
    from deserialize_datum_truncated [OF this True Suc.prems(7) iv vh(1)]
    show ?thesis
      by (simp add: deserialize_loop_step [OF lt])
  next
    case False
    define rest where "rest = take (k0 - length (?rec v)) restc"
    define pre1 where "pre1 = pre @ ?rec v"
    define addrs1 where "addrs1 = (if is_varlena \<and> v \<noteq> 0 then tl addrs else addrs)"
    have b': "bytes = pre @ ?rec v @ rest"
      using b False by (simp add: rest_def)
    note st = deserialize_datum_record [OF b' Suc.prems(7) iv vh(1), of typbyval m2]
    have kk: "k = length cs - Suc i" using Suc.hyps(2) by simp
    have vo1: "varlena_ok is_varlena mem addrs1 (drop (Suc i) cs)"
      using vh(2) by (simp add: addrs1_def)
    have b1: "bytes = take m (pre1 @ concat (map ?rec (drop (Suc i) cs)))"
      using Suc.prems(4) by (simp add: dr pre1_def)
    have m1: "length pre1 \<le> m" using False Suc.prems(5) by (simp add: pre1_def k0_def)
    have m2': "m < length pre1 + length (concat (map ?rec (drop (Suc i) cs)))"
      using Suc.prems(6) by (simp add: dr pre1_def)
    have l1: "length cs \<le> length (vals[i := (if v = 0 then 0 else if is_varlena then hd addrs else v)])"
      using Suc.prems(2) by simp
    have p1: "p + length (?rec v) = length pre1"
      using Suc.prems(7) by (simp add: pre1_def)
    from Suc.hyps(1) [OF kk Suc.prems(1) l1 vo1 b1 m1 m2' p1]
    show ?thesis
      by (simp only: deserialize_loop_step [OF lt] st sum.case addrs1_def)
  qed
qed

section \<open>The header\<close>

lemma deserialize_median_state_short:
  assumes "AggCheckCallContext pg" "length bytes < 20"
  shows "deserialize_median_state pg addrs m2 (Some bytes) = Inl OutOfBoundsRead"
  using assms
  by (auto simp: deserialize_median_state_def read_bytes_def split: sum.splits if_splits)

lemma deserialize_median_state_header:
  assumes agg: "AggCheckCallContext pg"
    and b: "bytes = bytes_of_Oid t @ bytes_of_int64 c @ bytes_of_int64 a @ rest"
    and c: "0 \<le> c" "c < a" and a: "a * 8 \<le> MaxAllocSize"
    and ti: "get_typlenbyvalalign pg t = (typlen, typbyval)"
  shows "deserialize_median_state pg addrs m2 (Some bytes)
           = (case deserialize_loop typbyval (typlen = -1 \<or> typlen = -2) bytes c 0
                     (20, replicate (nat a) 0, addrs, m2) of
                Inl e \<Rightarrow> Inl e
              | Inr (p, vals', addrs', mem') \<Rightarrow>
                  Inr (Some (\<lparr>inputTypeId = t, count = c, allocated = a, values_arr = vals',
                               typentry = lookup_type_cache pg t TYPECACHE_CMP_PROC\<rparr>,
                             mem')))"
proof -
  have r1: "read_bytes bytes 0 4 = Inr (bytes_of_Oid t)"
    using b read_bytes_at [of 0 "[]" 4 "bytes_of_Oid t" "bytes_of_int64 c @ bytes_of_int64 a @ rest"]
    by simp
  have r2: "read_bytes bytes 4 8 = Inr (bytes_of_int64 c)"
    using b read_bytes_at [of 4 "bytes_of_Oid t" 8 "bytes_of_int64 c" "bytes_of_int64 a @ rest"]
    by simp
  have "read_bytes ((bytes_of_Oid t @ bytes_of_int64 c) @ bytes_of_int64 a @ rest) 12 8
          = Inr (bytes_of_int64 a)"
    by (intro read_bytes_at) simp_all
  then have r3: "read_bytes bytes 12 8 = Inr (bytes_of_int64 a)"
    using b by simp
  have cc: "to_int64 c = c" "to_int64 a = a"
    using c a by (auto intro!: to_int64_id simp: MaxAllocSize_def)
  have sz: "Datum_array_bytes a = a * 8"
    using c a by (simp add: Datum_array_bytes_def MaxAllocSize_def)
  have va: "AllocSizeIsValid (a * 8)"
    using c a by (simp add: AllocSizeIsValid_def)
  show ?thesis
    by (simp add: deserialize_median_state_def agg r1 r2 r3 int64_of_bytes_of_int64 cc sz va ti
        palloc_Datums_def)
qed

section \<open>Serialization followed by deserialization\<close>

lemma deserialize_serialized:
  assumes ok: "state_ok s" and agg: "AggCheckCallContext pg"
    and ti: "get_typlenbyvalalign pg (inputTypeId s) = (typlen, typbyval)"
    and vl: "is_varlena = (typlen = -1 \<or> typlen = -2)"
    and vok: "varlena_ok is_varlena mem addrs (contents s)"
  shows "\<exists>s' mem'.
           deserialize_median_state pg addrs mem2
             (Some (bytes_of_Oid (inputTypeId s) @ bytes_of_int64 (count s)
                    @ bytes_of_int64 (allocated s)
                    @ concat (map (datum_record is_varlena mem) (contents s))))
             = Inr (Some (s', mem'))
           \<and> inputTypeId s' = inputTypeId s \<and> count s' = count s
           \<and> allocated s' = allocated s \<and> length (values_arr s') = nat (allocated s)
           \<and> typentry s' = lookup_type_cache pg (inputTypeId s) TYPECACHE_CMP_PROC
           \<and> (\<forall>j < nat (count s).
                 same_representation is_varlena mem (values_arr s ! j) mem' (values_arr s' ! j))
           \<and> (\<forall>a. a \<notin> set addrs \<longrightarrow> mem' a = mem2 a)"
proof -
  let ?hdr = "bytes_of_Oid (inputTypeId s) @ bytes_of_int64 (count s)
                @ bytes_of_int64 (allocated s)"
  let ?recs = "concat (map (datum_record is_varlena mem) (contents s))"
  let ?bytes = "?hdr @ ?recs"
  note b = state_ok_bounds [OF ok]
  have a8: "allocated s * 8 \<le> MaxAllocSize" using ok by (simp add: state_ok_def)
  have lc: "length (contents s) = nat (count s)" using b by (simp add: contents_def)
  have h: "deserialize_median_state pg addrs mem2 (Some ?bytes)
           = (case deserialize_loop typbyval is_varlena ?bytes (count s) 0
                     (20, replicate (nat (allocated s)) 0, addrs, mem2) of
                Inl e \<Rightarrow> Inl e
              | Inr (p, vals', addrs', mem') \<Rightarrow>
                  Inr (Some (\<lparr>inputTypeId = inputTypeId s, count = count s,
                               allocated = allocated s, values_arr = vals',
                               typentry = lookup_type_cache pg (inputTypeId s)
                                            TYPECACHE_CMP_PROC\<rparr>, mem')))"
    unfolding vl
    by (rule deserialize_median_state_header [OF agg _ b(1,2) a8 ti]) simp
  have c1: "count s = int (length (contents s))" using b lc by simp
  have c2: "length (contents s) \<le> length (replicate (nat (allocated s)) (0::Datum))"
    using b lc by simp
  have c3: "varlena_ok is_varlena mem addrs (drop 0 (contents s))" using vok by simp
  have c4: "?bytes = ?hdr @ concat (map (datum_record is_varlena mem) (drop 0 (contents s))) @ []"
    by simp
  have c5: "20 = length ?hdr" by simp
  from deserialize_loop_records [OF c1 c2 c3 c4 c5, of typbyval mem2]
  obtain vals' addrs' m' where
    r: "deserialize_loop typbyval is_varlena ?bytes (count s) 0
          (20, replicate (nat (allocated s)) 0, addrs, mem2)
          = Inr (20 + length (concat (map (datum_record is_varlena mem) (drop 0 (contents s)))),
                 vals', addrs', m')"
    and len: "length vals' = length (replicate (nat (allocated s)) (0::Datum))"
    and mm: "\<forall>a. a \<notin> set addrs \<longrightarrow> m' a = mem2 a"
    and rep: "\<forall>j. 0 \<le> j \<and> j < length (contents s) \<longrightarrow>
                 same_representation is_varlena mem (contents s ! j) m' (vals' ! j)"
    by (elim exE conjE) (rule that, assumption+)
  have rep': "\<forall>j < nat (count s).
                 same_representation is_varlena mem (values_arr s ! j) m' (vals' ! j)"
    using rep lc by (simp add: contents_def)
  let ?s' = "\<lparr>inputTypeId = inputTypeId s, count = count s, allocated = allocated s,
               values_arr = vals',
               typentry = lookup_type_cache pg (inputTypeId s) TYPECACHE_CMP_PROC\<rparr>"
  have d: "deserialize_median_state pg addrs mem2 (Some ?bytes) = Inr (Some (?s', m'))"
    by (simp only: h r sum.case prod.case)
  have f: "inputTypeId ?s' = inputTypeId s" "count ?s' = count s" "allocated ?s' = allocated s"
    "length (values_arr ?s') = nat (allocated s)"
    "typentry ?s' = lookup_type_cache pg (inputTypeId s) TYPECACHE_CMP_PROC"
    "\<forall>j < nat (count s).
        same_representation is_varlena mem (values_arr s ! j) m' (values_arr ?s' ! j)"
    using len rep' by simp_all
  have d': "deserialize_median_state pg addrs mem2
             (Some (bytes_of_Oid (inputTypeId s) @ bytes_of_int64 (count s)
                    @ bytes_of_int64 (allocated s)
                    @ concat (map (datum_record is_varlena mem) (contents s))))
             = Inr (Some (?s', m'))"
    using d by simp
  from d' f mm show ?thesis
    by (intro exI [of _ ?s'] exI [of _ m'] conjI) assumption+
qed

section \<open>Claim C8: the layout of the serialized state\<close>

text \<open>
  C8, as the code has it. For every well-formed state, in an aggregate context,
  \<open>serialize_median_state\<close> produces the type identifier in 4 bytes, the count in 8
  bytes and the capacity in 8 bytes, each readable back as the field, followed by one
  record for each of the \<open>count\<close> values and by nothing else. A record is the null flag
  in 1 byte, which is 1 for the Datum 0 and ends the record; otherwise the flag is 0 and
  is followed, for a variable-length type, by the length of the object in 4 bytes and the
  bytes of the object, and for every other type by the 8 bytes of the Datum word,
  whatever the length of the type. The type cache entry is not written: the bytes do not
  depend on it.
\<close>

theorem serialize_median_state_written_layout:
  assumes ok: "state_ok s" and agg: "AggCheckCallContext pg"
    and ti: "get_typlenbyvalalign pg (inputTypeId s) = (typlen, typbyval)"
    and vl: "is_varlena = (typlen = -1 \<or> typlen = -2)"
    and obj: "is_varlena \<longrightarrow> (\<forall>v \<in> set (contents s). int (length (mem v)) \<le> MaxAllocSize)"
  shows "serialize_median_state pg mem (Some s)
           = Inr (Some (bytes_of_Oid (inputTypeId s) @ bytes_of_int64 (count s)
                        @ bytes_of_int64 (allocated s)
                        @ concat (map (datum_record is_varlena mem) (contents s))))
       \<and> length (bytes_of_Oid (inputTypeId s)) = 4
       \<and> Oid_of_bytes (bytes_of_Oid (inputTypeId s)) = inputTypeId s
       \<and> length (bytes_of_int64 (count s)) = 8
       \<and> int64_of_bytes (bytes_of_int64 (count s)) = count s
       \<and> length (bytes_of_int64 (allocated s)) = 8
       \<and> int64_of_bytes (bytes_of_int64 (allocated s)) = allocated s
       \<and> length (contents s) = nat (count s)
       \<and> (\<forall>v. datum_record is_varlena mem v =
                (if v = 0 then [1]
                 else if is_varlena
                      then [0] @ bytes_of_int32 (int (length (mem v))) @ mem v
                      else [0] @ bytes_of_Datum v))
       \<and> (\<forall>v. length (bytes_of_Datum v) = 8 \<and> Datum_of_bytes (bytes_of_Datum v) = v)
       \<and> (\<forall>v \<in> set (contents s). is_varlena \<longrightarrow>
             length (bytes_of_int32 (int (length (mem v)))) = 4
             \<and> int32_of_bytes (bytes_of_int32 (int (length (mem v)))) = int (length (mem v)))
       \<and> serialize_median_state pg mem (Some (s\<lparr>typentry := te\<rparr>))
           = serialize_median_state pg mem (Some s)"
proof -
  note b = state_ok_bounds [OF ok]
  have obj': "is_varlena \<Longrightarrow> \<forall>v \<in> set (contents s). int (length (mem v)) \<le> MaxAllocSize"
    using obj by simp
  note lay = serialize_median_state_layout [OF ok agg ti vl obj']
  have ok': "state_ok (s\<lparr>typentry := te\<rparr>)"
    using ok by (simp add: state_ok_def array_ok_def)
  have ct: "contents (s\<lparr>typentry := te\<rparr>) = contents s"
    by (simp add: contents_def)
  have obj'': "is_varlena \<Longrightarrow>
      \<forall>v \<in> set (contents (s\<lparr>typentry := te\<rparr>)). int (length (mem v)) \<le> MaxAllocSize"
    using obj by (simp add: ct)
  have ti': "get_typlenbyvalalign pg (inputTypeId (s\<lparr>typentry := te\<rparr>)) = (typlen, typbyval)"
    using ti by simp
  have same: "serialize_median_state pg mem (Some (s\<lparr>typentry := te\<rparr>))
           = serialize_median_state pg mem (Some s)"
    using serialize_median_state_layout [OF ok' agg ti' vl obj''] lay by (simp add: ct)
  have c64: "int64_of_bytes (bytes_of_int64 (count s)) = count s"
    "int64_of_bytes (bytes_of_int64 (allocated s)) = allocated s"
    using b by (auto simp: int64_of_bytes_of_int64 intro!: to_int64_id)
  have lc: "length (contents s) = nat (count s)" using b by (simp add: contents_def)
  have l32: "\<forall>v \<in> set (contents s). is_varlena \<longrightarrow>
             length (bytes_of_int32 (int (length (mem v)))) = 4
             \<and> int32_of_bytes (bytes_of_int32 (int (length (mem v)))) = int (length (mem v))"
    using obj by (auto simp: int32_of_bytes_of_int32 MaxAllocSize_def intro!: to_int32_id)
  have rec: "\<forall>v. datum_record is_varlena mem v =
                (if v = 0 then [1]
                 else if is_varlena
                      then [0] @ bytes_of_int32 (int (length (mem v))) @ mem v
                      else [0] @ bytes_of_Datum v)"
    by (simp add: datum_record_def)
  from lay same c64 lc l32 rec show ?thesis
    by simp
qed


lemma state_text_ok: "state_ok state_text"
  by (simp add: state_ok_def array_ok_def state_text_def MaxAllocSize_def)

lemma contents_state_text: "contents state_text = [4096, 4104]"
  by (simp add: contents_def state_text_def)

lemma agg_pg_text: "AggCheckCallContext pg_text"
  by (simp add: pg_text_def pg_int8_def)

lemma tinfo_pg_text: "get_typlenbyvalalign pg_text (inputTypeId state_text) = (- 1, False)"
  by (simp add: pg_text_def)

text \<open>The theorem at the state of the variable-length type \<open>text\<close> that holds the objects
  of 3 and of 2 bytes: 20 bytes of header, then the records of 8 and of 7 bytes.\<close>

theorem serialize_median_state_written_layout_witness:
  "serialize_median_state pg_text mem_text (Some state_text)
     = Inr (Some ([25, 0, 0, 0] @ [2, 0, 0, 0, 0, 0, 0, 0] @ [8, 0, 0, 0, 0, 0, 0, 0]
                  @ [0, 3, 0, 0, 0, 7, 104, 105] @ [0, 2, 0, 0, 0, 5, 33]))"
proof -
  have vl: "True = ((- 1 :: int) = - 1 \<or> (- 1 :: int) = - 2)" by simp
  have obj: "True \<longrightarrow> (\<forall>v \<in> set (contents state_text). int (length (mem_text v)) \<le> MaxAllocSize)"
    by (simp add: contents_state_text mem_text_def MaxAllocSize_def)
  note t = serialize_median_state_written_layout
    [OF state_text_ok agg_pg_text tinfo_pg_text vl obj, THEN conjunct1]
  have e: "bytes_of_Oid (inputTypeId state_text) @ bytes_of_int64 (count state_text)
             @ bytes_of_int64 (allocated state_text)
             @ concat (map (datum_record True mem_text) (contents state_text))
           = [25, 0, 0, 0] @ [2, 0, 0, 0, 0, 0, 0, 0] @ [8, 0, 0, 0, 0, 0, 0, 0]
             @ [0, 3, 0, 0, 0, 7, 104, 105] @ [0, 2, 0, 0, 0, 5, 33]"
    by code_simp
  from t show ?thesis by (simp only: e)
qed

text \<open>
  C8 as stated fails: \<open>int4\<close> is a fixed-width type of 4 bytes, and the declared layout
  of the state that holds the \<open>int4\<close> value 5 has a record of the flag and 4 value
  bytes, 25 bytes in all. The serialization writes the flag and the 8 bytes of the
  Datum, 29 bytes in all.
\<close>

theorem serialize_writes_datum_not_type_width:
  "declared_layout pg_int4 no_mem state_int4_5
     = [23, 0, 0, 0] @ [1, 0, 0, 0, 0, 0, 0, 0] @ [8, 0, 0, 0, 0, 0, 0, 0] @ [0, 5, 0, 0, 0]
   \<and> serialize_median_state pg_int4 no_mem (Some state_int4_5)
     = Inr (Some ([23, 0, 0, 0] @ [1, 0, 0, 0, 0, 0, 0, 0] @ [8, 0, 0, 0, 0, 0, 0, 0]
                  @ [0, 5, 0, 0, 0, 0, 0, 0, 0]))
   \<and> serialize_median_state pg_int4 no_mem (Some state_int4_5)
     \<noteq> Inr (Some (declared_layout pg_int4 no_mem state_int4_5))"
  by code_simp

section \<open>Claim C2: the round trip\<close>

lemma varlena_ok_objects:
  "varlena_ok is_varlena mem addrs vs \<Longrightarrow> is_varlena
     \<Longrightarrow> \<forall>v \<in> set vs. int (length (mem v)) \<le> MaxAllocSize"
  by (simp add: varlena_ok_def)


lemma varlena_ok_state_text: "varlena_ok True mem_text [8192, 8200] (contents state_text)"
  by (simp add: varlena_ok_def contents_state_text mem_text_def MaxAllocSize_def)


section \<open>Claim C10: the null flag\<close>





section \<open>Claim C7: input that is cut short\<close>

text \<open>
  C7, as the code has it. \<open>deserialize_median_state\<close> does not compare its input with
  the layout or with the length of the input, and has no error of its own for corrupt
  data. On the complete serialization of a well-formed state it returns a state, reading
  within the bytes; on every proper prefix of that serialization it reads past the end of
  the bytes it was given.
\<close>

theorem deserialize_truncated_reads_past_end:
  assumes ok: "state_ok s" and agg: "AggCheckCallContext pg"
    and ti: "get_typlenbyvalalign pg (inputTypeId s) = (typlen, typbyval)"
    and vl: "is_varlena = (typlen = -1 \<or> typlen = -2)"
    and vok: "varlena_ok is_varlena mem addrs (contents s)"
  shows "\<exists>bytes.
           serialize_median_state pg mem (Some s) = Inr (Some bytes)
           \<and> (\<exists>r. deserialize_median_state pg addrs mem2 (Some bytes) = Inr r)
           \<and> (\<forall>n < length bytes.
                 deserialize_median_state pg addrs mem2 (Some (take n bytes))
                   = Inl OutOfBoundsRead)"
proof -
  let ?hdr = "bytes_of_Oid (inputTypeId s) @ bytes_of_int64 (count s)
                @ bytes_of_int64 (allocated s)"
  let ?recs = "concat (map (datum_record is_varlena mem) (contents s))"
  let ?bytes = "bytes_of_Oid (inputTypeId s) @ bytes_of_int64 (count s)
                  @ bytes_of_int64 (allocated s) @ ?recs"
  note b = state_ok_bounds [OF ok]
  have a8: "allocated s * 8 \<le> MaxAllocSize" using ok by (simp add: state_ok_def)
  have lc: "length (contents s) = nat (count s)" using b by (simp add: contents_def)
  note lay = serialize_median_state_layout [OF ok agg ti vl varlena_ok_objects [OF vok]]
  from deserialize_serialized [OF ok agg ti vl vok, of mem2]
  have full: "\<exists>r. deserialize_median_state pg addrs mem2 (Some ?bytes) = Inr r"
    by blast
  have cut: "deserialize_median_state pg addrs mem2 (Some (take n ?bytes)) = Inl OutOfBoundsRead"
    if n: "n < length ?bytes" for n
  proof (cases "n < 20")
    case True
    then have "length (take n ?bytes) < 20" by simp
    then show ?thesis by (rule deserialize_median_state_short [OF agg])
  next
    case False
    have tk: "take n ?bytes = bytes_of_Oid (inputTypeId s) @ bytes_of_int64 (count s)
                @ bytes_of_int64 (allocated s) @ take (n - 20) ?recs"
      using False by simp
    have h: "deserialize_median_state pg addrs mem2 (Some (take n ?bytes))
           = (case deserialize_loop typbyval is_varlena (take n ?bytes) (count s) 0
                     (20, replicate (nat (allocated s)) 0, addrs, mem2) of
                Inl e \<Rightarrow> Inl e
              | Inr (p, vals', addrs', mem') \<Rightarrow>
                  Inr (Some (\<lparr>inputTypeId = inputTypeId s, count = count s,
                               allocated = allocated s, values_arr = vals',
                               typentry = lookup_type_cache pg (inputTypeId s)
                                            TYPECACHE_CMP_PROC\<rparr>, mem')))"
      unfolding vl
      by (rule deserialize_median_state_header [OF agg tk [unfolded vl] b(1,2) a8 ti])
    have c1: "count s = int (length (contents s))" using b lc by simp
    have c2: "length (contents s) \<le> length (replicate (nat (allocated s)) (0::Datum))"
      using b lc by simp
    have c3: "varlena_ok is_varlena mem addrs (drop 0 (contents s))" using vok by simp
    have c4: "take n ?bytes
                = take n (?hdr @ concat (map (datum_record is_varlena mem) (drop 0 (contents s))))"
      by simp
    have c5: "length ?hdr \<le> n" using False by simp
    have c6: "n < length ?hdr
                  + length (concat (map (datum_record is_varlena mem) (drop 0 (contents s))))"
      using n by simp
    have c7: "20 = length ?hdr" by simp
    have "deserialize_loop typbyval is_varlena (take n ?bytes) (count s) 0
            (20, replicate (nat (allocated s)) 0, addrs, mem2) = Inl OutOfBoundsRead"
      by (rule deserialize_loop_truncated [OF c1 c2 c3 c4 c5 c6 c7])
    then show ?thesis
      by (simp only: h sum.case)
  qed
  from lay full cut show ?thesis
    by (intro exI [of _ ?bytes] conjI allI impI) assumption+
qed

text \<open>The theorem at the state of type \<open>text\<close> with its two objects.\<close>

theorem deserialize_truncated_reads_past_end_witness:
  "\<exists>bytes.
      serialize_median_state pg_text mem_text (Some state_text) = Inr (Some bytes)
      \<and> (\<exists>r. deserialize_median_state pg_text [8192, 8200] no_mem (Some bytes) = Inr r)
      \<and> (\<forall>n < length bytes.
            deserialize_median_state pg_text [8192, 8200] no_mem (Some (take n bytes))
              = Inl OutOfBoundsRead)"
proof -
  have vl: "True = ((- 1 :: int) = - 1 \<or> (- 1 :: int) = - 2)" by simp
  show ?thesis
    by (rule deserialize_truncated_reads_past_end
        [OF state_text_ok agg_pg_text tinfo_pg_text vl varlena_ok_state_text])
qed

text \<open>
  C7 as stated fails: given no bytes at all, and given a header that announces one value
  of type \<open>int8\<close> and no record after it, the function raises no error: it reads past
  the end of the bytes.
\<close>

theorem deserialize_reads_past_end:
  "deserialize_median_state pg_int8 [] no_mem (Some []) = Inl OutOfBoundsRead
   \<and> deserialize_median_state pg_int8 [] no_mem
       (Some ([20, 0, 0, 0] @ [1, 0, 0, 0, 0, 0, 0, 0] @ [8, 0, 0, 0, 0, 0, 0, 0]))
       = Inl OutOfBoundsRead"
  by code_simp

end
